theory Spec2Isabelle
  imports Main "HOL-Library.Sublist"
begin

section \<open>Python string operations used by the two scripts\<close>

text \<open>
  A Python string is a list of characters; a string with characters outside ASCII is
  written as the bytes of its UTF-8 encoding.

  \<open>str.lower\<close> is a library function driven by the Unicode database: it folds letters
  outside ASCII too, one character may become several, and the result for a capital
  sigma depends on its neighbours. It is therefore an argument (\<open>str_lower\<close>) of the
  functions that call it. On ASCII strings it is \<open>lower\<close>: the letters \<open>A\<close> .. \<open>Z\<close>
  (codes 65 .. 90) become \<open>a\<close> .. \<open>z\<close> and every other character stays as it is.
\<close>

definition lower_char :: "char \<Rightarrow> char" where
  "lower_char c =
     (if (65::nat) \<le> of_char c \<and> of_char c \<le> (90::nat)
      then char_of (of_char c + (32::nat)) else c)"

definition lower :: "string \<Rightarrow> string" where
  "lower s = map lower_char s"

text \<open>\<open>s.startswith(t)\<close>\<close>

fun startswith :: "string \<Rightarrow> string \<Rightarrow> bool" where
  "startswith s [] = True"
| "startswith [] (c # t) = False"
| "startswith (a # s) (c # t) = (a = c \<and> startswith s t)"

text \<open>\<open>s.endswith(t)\<close>\<close>

definition endswith :: "string \<Rightarrow> string \<Rightarrow> bool" where
  "endswith s t = startswith (rev s) (rev t)"

text \<open>\<open>t in s\<close>: the substring test.\<close>

fun py_in :: "string \<Rightarrow> string \<Rightarrow> bool" where
  "py_in t [] = (t = [])"
| "py_in t (c # s) = (startswith (c # s) t \<or> py_in t s)"

text \<open>\<open>s.rfind(c)\<close> for a single character: the last index of \<open>c\<close>, or \<open>-1\<close>.\<close>

fun rfind :: "string \<Rightarrow> char \<Rightarrow> int" where
  "rfind [] c = -1"
| "rfind (x # xs) c =
     (if 0 \<le> rfind xs c then rfind xs c + 1 else if x = c then 0 else -1)"

text \<open>\<open>s.rstrip(c)\<close> for a single character.\<close>

definition rstrip :: "string \<Rightarrow> char \<Rightarrow> string" where
  "rstrip s c = rev (dropWhile (\<lambda>x. x = c) (rev s))"

section \<open>The functions of \<open>os.path\<close> (POSIX) the scripts call\<close>

text \<open>\<open>os.path.join(a, b)\<close> with two arguments.\<close>

definition path_join :: "string \<Rightarrow> string \<Rightarrow> string" where
  "path_join a b =
     (if startswith b ''/'' then b
      else if a = [] \<or> endswith a ''/'' then a @ b
      else a @ ''/'' @ b)"

text \<open>\<open>os.path.basename(p)\<close>: everything after the last slash.\<close>

definition basename :: "string \<Rightarrow> string" where
  "basename p = drop (nat (rfind p CHR ''/'' + 1)) p"

text \<open>
  \<open>os.path.dirname(p)\<close>: everything up to the last slash, with trailing slashes
  removed unless the head consists of slashes only.
\<close>

definition dirname :: "string \<Rightarrow> string" where
  "dirname p =
     (let head = take (nat (rfind p CHR ''/'' + 1)) p
      in if head \<noteq> [] \<and> head \<noteq> replicate (length head) CHR ''/''
         then rstrip head CHR ''/'' else head)"

text \<open>
  \<open>os.path.splitext(p)\<close>: the split is at the last dot, provided that dot comes after
  the last slash and some character between the slash and the dot is not a dot
  (leading dots of the last component do not start an extension).
\<close>

definition splitext :: "string \<Rightarrow> string \<times> string" where
  "splitext p =
     (let sepIndex = rfind p CHR ''/'';
          dotIndex = rfind p CHR ''.''
      in if sepIndex < dotIndex \<and>
            list_ex (\<lambda>x. x \<noteq> CHR ''.'')
              (take (nat (dotIndex - (sepIndex + 1))) (drop (nat (sepIndex + 1)) p))
         then (take (nat dotIndex) p, drop (nat dotIndex) p)
         else (p, []))"

section \<open>Formatting of numbers\<close>

text \<open>\<open>str(n)\<close> for the integers printed inside the console messages.\<close>

fun str_nat :: "nat \<Rightarrow> string" where
  "str_nat n =
     (if n < 10 then [char_of (48 + n)]
      else str_nat (n div 10) @ [char_of (48 + n mod 10)])"

declare str_nat.simps [simp del]

definition str_int :: "int \<Rightarrow> string" where
  "str_int i = (if i < 0 then CHR ''-'' # str_nat (nat (- i)) else str_nat (nat i))"

section \<open>The world the scripts act on\<close>

text \<open>
  The file system is a map from path to file content: it holds regular files only, and
  two different path strings name two different files (no links, no \<open>..\<close>
  components). \<open>console\<close> collects the lines printed; \<open>attempted\<close> records the
  argument list of every call of \<open>subprocess.run\<close>, in order, whether or not the
  binary could be started.
\<close>

record world =
  files :: "string \<rightharpoonup> string"
  console :: "string list"
  attempted :: "string list list"

text \<open>
  What one call of \<open>subprocess.run(command, check=True, capture_output=True, text=True)\<close>
  can do:
  \<^item> \<open>NotFound\<close>: the binary is missing, \<open>FileNotFoundError\<close> is raised;
  \<^item> \<open>CannotStart\<close>: the process cannot be started for another reason and another
    exception is raised (\<open>PermissionError\<close> or another \<open>OSError\<close>, \<open>ValueError\<close> for an
    argument with a null byte);
  \<^item> \<open>Completed rc err out\<close>: the process ran and ended with return code \<open>rc\<close>, and its
    captured streams were decoded as text, \<open>err\<close> being the error stream; with
    \<open>check=True\<close> a return code other than 0 raises \<open>CalledProcessError\<close>;
  \<^item> \<open>Undecodable rc out\<close>: the process ran and ended with return code \<open>rc\<close>, but a
    captured stream is not valid text in the encoding in use, so that
    \<open>UnicodeDecodeError\<close> is raised, whatever the return code.

  In the last two cases \<open>out\<close> is what the process left at its output path (\<open>None\<close>:
  it wrote nothing there).
\<close>

datatype proc_result =
  NotFound
| CannotStart
| Completed int string "string option"
| Undecodable int "string option"

text \<open>
  Everything outside the two scripts is a parameter: the scratch directory returned by
  \<open>tempfile.gettempdir()\<close>, \<open>os.path.isdir\<close> and \<open>os.walk\<close> on the current
  file system, and the behaviour of the external \<open>ffmpeg\<close> binary, which may depend on
  the whole world at the moment of the call. The external process writes to its output
  path (the last argument) only.
\<close>

record env =
  gettempdir :: string
  isdir :: "(string \<rightharpoonup> string) \<Rightarrow> string \<Rightarrow> bool"
  walk :: "(string \<rightharpoonup> string) \<Rightarrow> string \<Rightarrow> (string \<times> string list \<times> string list) list"
  ffmpeg :: "world \<Rightarrow> string list \<Rightarrow> proc_result"

text \<open>
  How a call ends: it returns, \<open>exit()\<close> raises \<open>SystemExit\<close>, or an exception that no
  \<open>except\<close> clause of the scripts catches leaves it.
\<close>

datatype control = Returned | SystemExit | Uncaught

definition print :: "world \<Rightarrow> string \<Rightarrow> world" where
  "print w s = w\<lparr>console := console w @ [s]\<rparr>"

definition subprocess_run :: "env \<Rightarrow> world \<Rightarrow> string list \<Rightarrow> proc_result \<times> world" where
  "subprocess_run e w command =
     (let w1 = w\<lparr>attempted := attempted w @ [command]\<rparr>
      in case ffmpeg e w command of
           NotFound \<Rightarrow> (NotFound, w1)
         | CannotStart \<Rightarrow> (CannotStart, w1)
         | Completed rc err out \<Rightarrow>
             (Completed rc err out,
              case out of
                None \<Rightarrow> w1
              | Some c \<Rightarrow> w1\<lparr>files := (files w1)(last command \<mapsto> c)\<rparr>)
         | Undecodable rc out \<Rightarrow>
             (Undecodable rc out,
              case out of
                None \<Rightarrow> w1
              | Some c \<Rightarrow> w1\<lparr>files := (files w1)(last command \<mapsto> c)\<rparr>))"

text \<open>
  \<open>shutil.move(src, dst)\<close> between two file paths: \<open>None\<close> stands for the
  \<open>FileNotFoundError\<close> raised when \<open>src\<close> does not exist. Moving or removing a file
  that exists succeeds.
\<close>

definition shutil_move :: "(string \<rightharpoonup> string) \<Rightarrow> string \<Rightarrow> string \<Rightarrow> (string \<rightharpoonup> string) option" where
  "shutil_move fs src dst =
     (case fs src of
        None \<Rightarrow> None
      | Some c \<Rightarrow> Some ((fs(src := None))(dst \<mapsto> c)))"

definition ffmpeg_not_found_msg :: string where
  "ffmpeg_not_found_msg =
     ''ERROR: ffmpeg command not found. Is FFmpeg installed and in your system'' @
     [CHR 0x27] @ ''s PATH?''"

section \<open>\<open>clip_video.py\<close>\<close>

text \<open>
  Lines 17 to 26 of \<open>crop_video_top_half\<close>: the pair
  \<open>(temp_output_path, output_path_final)\<close>.
\<close>

definition crop_paths :: "string \<Rightarrow> string \<Rightarrow> bool \<Rightarrow> string \<times> string" where
  "crop_paths temp_dir input_path overwrite =
     (if overwrite
      then (path_join temp_dir (''temp_crop_'' @ basename input_path), input_path)
      else (case splitext input_path of
              (base, ext) \<Rightarrow> (base @ ''_cropped'' @ ext, base @ ''_cropped'' @ ext)))"

definition crop_command :: "string \<Rightarrow> string \<Rightarrow> string list" where
  "crop_command input_path temp_output_path =
     [''ffmpeg'', ''-y'', ''-i'', input_path, ''-vf'', ''crop=iw:ih/2:0:0'',
      ''-c:v'', ''libx264'', ''-pix_fmt'', ''yuv420p'', ''-preset'', ''fast'',
      ''-crf'', ''18'', ''-movflags'', ''+faststart'', ''-an'', temp_output_path]"

definition crop_video_top_half :: "env \<Rightarrow> world \<Rightarrow> string \<Rightarrow> bool \<Rightarrow> control \<times> world" where
  "crop_video_top_half e w input_path overwrite =
     (let w0 = print w (''Processing: '' @ input_path);
          temp_output_path = fst (crop_paths (gettempdir e) input_path overwrite);
          output_path_final = snd (crop_paths (gettempdir e) input_path overwrite);
          command = crop_command input_path temp_output_path
      in case subprocess_run e w0 command of
           (NotFound, w1) \<Rightarrow> (SystemExit, print w1 ffmpeg_not_found_msg)
         | (CannotStart, w1) \<Rightarrow> (Uncaught, w1)
         | (Undecodable rc out, w1) \<Rightarrow> (Uncaught, w1)
         | (Completed rc err out, w1) \<Rightarrow>
             if rc \<noteq> 0 then
               (let w2 = print w1 (''ERROR processing '' @ input_path @ '':'');
                    w3 = print w2 (''  Return code: '' @ str_int rc);
                    w4 = print w3 (''  Stderr: '' @ err)
                in (Returned,
                    if overwrite \<and> files w4 temp_output_path \<noteq> None
                    then w4\<lparr>files := (files w4)(temp_output_path := None)\<rparr>
                    else w4))
             else if overwrite then
               (case shutil_move (files w1) temp_output_path output_path_final of
                  None \<Rightarrow> (SystemExit, print w1 ffmpeg_not_found_msg)
                | Some fs \<Rightarrow>
                    (Returned,
                     print (w1\<lparr>files := fs\<rparr>)
                       (''SUCCESS: Cropped and overwrote original file -> '' @ output_path_final)))
             else
               (Returned, print w1 (''SUCCESS: Saved cropped video to -> '' @ output_path_final)))"

text \<open>
  The scan of \<open>find_and_crop_videos\<close>, lines 91 to 98: the inner loop over the
  filenames of one directory, then the outer loop over the triples of \<open>os.walk\<close>.
  The last argument is \<open>video_paths_to_process\<close>.
\<close>

fun crop_scan_dir ::
  "(string \<Rightarrow> string) \<Rightarrow> string \<Rightarrow> bool \<Rightarrow> string \<Rightarrow> string list \<Rightarrow> string list \<Rightarrow> string list" where
  "crop_scan_dir str_lower exclude_keyword overwrite dirpath [] acc = acc"
| "crop_scan_dir str_lower exclude_keyword overwrite dirpath (filename # rest) acc =
     (if endswith (str_lower filename) ''.mp4'' \<and> \<not> py_in (str_lower exclude_keyword) (str_lower filename)
      then (if \<not> overwrite \<and> endswith (str_lower filename) ''_cropped.mp4''
            then crop_scan_dir str_lower exclude_keyword overwrite dirpath rest acc
            else crop_scan_dir str_lower exclude_keyword overwrite dirpath rest
                   (acc @ [path_join dirpath filename]))
      else crop_scan_dir str_lower exclude_keyword overwrite dirpath rest acc)"

fun crop_scan ::
  "(string \<Rightarrow> string) \<Rightarrow> string \<Rightarrow> bool \<Rightarrow> (string \<times> string list \<times> string list) list \<Rightarrow>
   string list \<Rightarrow> string list" where
  "crop_scan str_lower exclude_keyword overwrite [] acc = acc"
| "crop_scan str_lower exclude_keyword overwrite ((dirpath, dirnames, filenames) # rest) acc =
     crop_scan str_lower exclude_keyword overwrite rest
       (crop_scan_dir str_lower exclude_keyword overwrite dirpath filenames acc)"

text \<open>The processing loop of \<open>find_and_crop_videos\<close>, lines 105 and 106.\<close>

fun crop_each :: "env \<Rightarrow> world \<Rightarrow> string list \<Rightarrow> bool \<Rightarrow> control \<times> world" where
  "crop_each e w [] overwrite = (Returned, w)"
| "crop_each e w (path # rest) overwrite =
     (case crop_video_top_half e w path overwrite of
        (SystemExit, w') \<Rightarrow> (SystemExit, w')
      | (Uncaught, w') \<Rightarrow> (Uncaught, w')
      | (Returned, w') \<Rightarrow> crop_each e w' rest overwrite)"

definition find_and_crop_videos ::
  "(string \<Rightarrow> string) \<Rightarrow> env \<Rightarrow> world \<Rightarrow> string \<Rightarrow> string \<Rightarrow> bool \<Rightarrow> control \<times> world" where
  "find_and_crop_videos str_lower e w root_dir exclude_keyword overwrite =
     (if \<not> isdir e (files w) root_dir
      then (Returned, print w (''Error: Directory '' @ [CHR 0x27] @ root_dir @ [CHR 0x27] @ '' not found.''))
      else
        (let w1 = print w (''Starting to search for '' @ [CHR 0x27] @ ''*.mp4'' @ [CHR 0x27] @
                           '' files without '' @ [CHR 0x27] @ exclude_keyword @ [CHR 0x27] @
                           '' in '' @ [CHR 0x27] @ root_dir @ [CHR 0x27] @ ''...'');
             w2 = (if overwrite
                   then print w1 ''WARNING: Overwrite mode is enabled. Original files will be replaced.''
                   else w1);
             video_paths_to_process =
               crop_scan str_lower exclude_keyword overwrite (walk e (files w2) root_dir) []
         in if video_paths_to_process = []
            then (Returned, print w2 ''No matching video files found to crop.'')
            else
              (let w3 = print w2 (''Found '' @ str_nat (length video_paths_to_process) @
                                  '' video(s) to process.'')
               in case crop_each e w3 video_paths_to_process overwrite of
                    (SystemExit, w4) \<Rightarrow> (SystemExit, w4)
                  | (Uncaught, w4) \<Rightarrow> (Uncaught, w4)
                  | (Returned, w4) \<Rightarrow> (Returned, print w4 (CHR 0x0A # ''Processing complete.'')))))"

section \<open>\<open>transform_video.py\<close>\<close>

text \<open>
  Lines 18 to 27 of \<open>re_encode_video\<close>: the pair
  \<open>(temp_output_path, output_path_final)\<close>.
\<close>

definition re_encode_paths :: "string \<Rightarrow> string \<Rightarrow> bool \<Rightarrow> string \<times> string" where
  "re_encode_paths temp_dir input_path overwrite =
     (if overwrite
      then (path_join temp_dir (''temp_'' @ basename input_path), input_path)
      else (case splitext input_path of
              (base, ext) \<Rightarrow> (base @ ''_new'' @ ext, base @ ''_new'' @ ext)))"

definition re_encode_command :: "string \<Rightarrow> string \<Rightarrow> string list" where
  "re_encode_command input_path temp_output_path =
     [''ffmpeg'', ''-y'', ''-i'', input_path,
      ''-c:v'', ''libx264'', ''-pix_fmt'', ''yuv420p'', ''-preset'', ''fast'',
      ''-crf'', ''18'', ''-movflags'', ''+faststart'', ''-an'', temp_output_path]"

definition re_encode_video :: "env \<Rightarrow> world \<Rightarrow> string \<Rightarrow> bool \<Rightarrow> control \<times> world" where
  "re_encode_video e w input_path overwrite =
     (let w0 = print w (''Processing: '' @ input_path);
          temp_output_path = fst (re_encode_paths (gettempdir e) input_path overwrite);
          output_path_final = snd (re_encode_paths (gettempdir e) input_path overwrite);
          command = re_encode_command input_path temp_output_path
      in case subprocess_run e w0 command of
           (NotFound, w1) \<Rightarrow> (SystemExit, print w1 ffmpeg_not_found_msg)
         | (CannotStart, w1) \<Rightarrow> (Uncaught, w1)
         | (Undecodable rc out, w1) \<Rightarrow> (Uncaught, w1)
         | (Completed rc err out, w1) \<Rightarrow>
             if rc \<noteq> 0 then
               (let w2 = print w1 (''ERROR processing '' @ input_path @ '':'');
                    w3 = print w2 (''  Return code: '' @ str_int rc);
                    w4 = print w3 (''  Stderr: '' @ err)
                in (Returned,
                    if overwrite \<and> files w4 temp_output_path \<noteq> None
                    then w4\<lparr>files := (files w4)(temp_output_path := None)\<rparr>
                    else w4))
             else if overwrite then
               (case shutil_move (files w1) temp_output_path output_path_final of
                  None \<Rightarrow> (SystemExit, print w1 ffmpeg_not_found_msg)
                | Some fs \<Rightarrow>
                    (Returned,
                     print (w1\<lparr>files := fs\<rparr>)
                       (''SUCCESS: Overwrote original file -> '' @ output_path_final)))
             else
               (Returned, print w1 (''SUCCESS: Saved re-encoded video to -> '' @ output_path_final)))"

text \<open>
  The scan of \<open>find_and_process_videos\<close>, lines 86 to 92, and its processing loop,
  lines 99 and 100.
\<close>

fun process_scan_dir ::
  "(string \<Rightarrow> string) \<Rightarrow> string \<Rightarrow> bool \<Rightarrow> string \<Rightarrow> string list \<Rightarrow> string list \<Rightarrow> string list" where
  "process_scan_dir str_lower keyword overwrite dirpath [] acc = acc"
| "process_scan_dir str_lower keyword overwrite dirpath (filename # rest) acc =
     (if endswith (str_lower filename) ''.mp4'' \<and> py_in (str_lower keyword) (str_lower filename)
      then (if \<not> overwrite \<and> endswith (str_lower filename) ''_new.mp4''
            then process_scan_dir str_lower keyword overwrite dirpath rest acc
            else process_scan_dir str_lower keyword overwrite dirpath rest
                   (acc @ [path_join dirpath filename]))
      else process_scan_dir str_lower keyword overwrite dirpath rest acc)"

fun process_scan ::
  "(string \<Rightarrow> string) \<Rightarrow> string \<Rightarrow> bool \<Rightarrow> (string \<times> string list \<times> string list) list \<Rightarrow>
   string list \<Rightarrow> string list" where
  "process_scan str_lower keyword overwrite [] acc = acc"
| "process_scan str_lower keyword overwrite ((dirpath, dirnames, filenames) # rest) acc =
     process_scan str_lower keyword overwrite rest
       (process_scan_dir str_lower keyword overwrite dirpath filenames acc)"

fun re_encode_each :: "env \<Rightarrow> world \<Rightarrow> string list \<Rightarrow> bool \<Rightarrow> control \<times> world" where
  "re_encode_each e w [] overwrite = (Returned, w)"
| "re_encode_each e w (path # rest) overwrite =
     (case re_encode_video e w path overwrite of
        (SystemExit, w') \<Rightarrow> (SystemExit, w')
      | (Uncaught, w') \<Rightarrow> (Uncaught, w')
      | (Returned, w') \<Rightarrow> re_encode_each e w' rest overwrite)"

definition find_and_process_videos ::
  "(string \<Rightarrow> string) \<Rightarrow> env \<Rightarrow> world \<Rightarrow> string \<Rightarrow> string \<Rightarrow> bool \<Rightarrow> control \<times> world" where
  "find_and_process_videos str_lower e w root_dir keyword overwrite =
     (if \<not> isdir e (files w) root_dir
      then (Returned, print w (''Error: Directory '' @ [CHR 0x27] @ root_dir @ [CHR 0x27] @ '' not found.''))
      else
        (let w1 = print w (''Starting to search for '' @ [CHR 0x27] @ ''*.mp4'' @ [CHR 0x27] @
                           '' files with '' @ [CHR 0x27] @ keyword @ [CHR 0x27] @
                           '' in '' @ [CHR 0x27] @ root_dir @ [CHR 0x27] @ ''...'');
             w2 = (if overwrite
                   then print w1 ''WARNING: Overwrite mode is enabled. Original files will be replaced.''
                   else w1);
             video_paths_to_process =
               process_scan str_lower keyword overwrite (walk e (files w2) root_dir) []
         in if video_paths_to_process = []
            then (Returned, print w2 ''No matching video files found.'')
            else
              (let w3 = print w2 (''Found '' @ str_nat (length video_paths_to_process) @
                                  '' video(s) to process.'')
               in case re_encode_each e w3 video_paths_to_process overwrite of
                    (SystemExit, w4) \<Rightarrow> (SystemExit, w4)
                  | (Uncaught, w4) \<Rightarrow> (Uncaught, w4)
                  | (Returned, w4) \<Rightarrow> (Returned, print w4 (CHR 0x0A # ''Processing complete.'')))))"

section \<open>The two pipelines side by side\<close>

text \<open>
  The two scripts have the same shape. The following names select one of them, so that
  a property can be stated once for both. \<open>scan_with\<close> is the scan loop of a pipeline
  for an arbitrary \<open>str.lower\<close>; \<open>scan\<close> and \<open>run_pipeline\<close> are the scan loop and the
  pipeline on ASCII filenames and keywords, where \<open>str.lower\<close> is \<open>lower\<close>.
\<close>

datatype pipeline = Crop | Transform

definition job_paths :: "pipeline \<Rightarrow> string \<Rightarrow> string \<Rightarrow> bool \<Rightarrow> string \<times> string" where
  "job_paths pl = (case pl of Crop \<Rightarrow> crop_paths | Transform \<Rightarrow> re_encode_paths)"

definition job_command :: "pipeline \<Rightarrow> string \<Rightarrow> string \<Rightarrow> string list" where
  "job_command pl = (case pl of Crop \<Rightarrow> crop_command | Transform \<Rightarrow> re_encode_command)"

definition run_job :: "pipeline \<Rightarrow> env \<Rightarrow> world \<Rightarrow> string \<Rightarrow> bool \<Rightarrow> control \<times> world" where
  "run_job pl = (case pl of Crop \<Rightarrow> crop_video_top_half | Transform \<Rightarrow> re_encode_video)"

definition run_each :: "pipeline \<Rightarrow> env \<Rightarrow> world \<Rightarrow> string list \<Rightarrow> bool \<Rightarrow> control \<times> world" where
  "run_each pl = (case pl of Crop \<Rightarrow> crop_each | Transform \<Rightarrow> re_encode_each)"

definition scan_with ::
  "(string \<Rightarrow> string) \<Rightarrow> pipeline \<Rightarrow> string \<Rightarrow> bool \<Rightarrow>
   (string \<times> string list \<times> string list) list \<Rightarrow> string list" where
  "scan_with str_lower pl keyword overwrite tree =
     (case pl of
        Crop \<Rightarrow> crop_scan str_lower keyword overwrite tree []
      | Transform \<Rightarrow> process_scan str_lower keyword overwrite tree [])"

definition scan :: "pipeline \<Rightarrow> string \<Rightarrow> bool \<Rightarrow> (string \<times> string list \<times> string list) list \<Rightarrow> string list" where
  "scan pl keyword overwrite tree =
     (case pl of
        Crop \<Rightarrow> crop_scan lower keyword overwrite tree []
      | Transform \<Rightarrow> process_scan lower keyword overwrite tree [])"

definition run_pipeline :: "pipeline \<Rightarrow> env \<Rightarrow> world \<Rightarrow> string \<Rightarrow> string \<Rightarrow> bool \<Rightarrow> control \<times> world" where
  "run_pipeline pl =
     (case pl of
        Crop \<Rightarrow> find_and_crop_videos lower
      | Transform \<Rightarrow> find_and_process_videos lower)"

text \<open>The command a pipeline issues for one input path in a given mode.\<close>

definition command_for :: "pipeline \<Rightarrow> env \<Rightarrow> bool \<Rightarrow> string \<Rightarrow> string list" where
  "command_for pl e overwrite path =
     job_command pl path (fst (job_paths pl (gettempdir e) path overwrite))"

text \<open>What the external process answers when the job for \<open>path\<close> is started in world \<open>w\<close>.\<close>

definition tool_answer :: "pipeline \<Rightarrow> env \<Rightarrow> world \<Rightarrow> string \<Rightarrow> bool \<Rightarrow> proc_result" where
  "tool_answer pl e w path overwrite =
     ffmpeg e (print w (''Processing: '' @ path)) (command_for pl e overwrite path)"

section \<open>The selection rule in the words of the specification\<close>

datatype polarity = EXCLUDE | INCLUDE

datatype mode = OVERWRITE | COPY

definition mode_of :: "bool \<Rightarrow> mode" where
  "mode_of overwrite = (if overwrite then OVERWRITE else COPY)"

definition polarity_of :: "pipeline \<Rightarrow> polarity" where
  "polarity_of pl = (case pl of Crop \<Rightarrow> EXCLUDE | Transform \<Rightarrow> INCLUDE)"

definition fixed_suffix :: "pipeline \<Rightarrow> string" where
  "fixed_suffix pl = (case pl of Crop \<Rightarrow> ''_cropped'' | Transform \<Rightarrow> ''_new'')"

text \<open>
  For a given \<open>str.lower\<close>, a filename is selected when its lowered form ends with
  \<open>.mp4\<close>, the lowered keyword is a substring of it exactly when the polarity is
  \<open>INCLUDE\<close>, and, in \<open>COPY\<close> mode, the lowered filename does not end with the output
  suffix of the pipeline followed by \<open>.mp4\<close>.
\<close>

definition selected_with :: "(string \<Rightarrow> string) \<Rightarrow> pipeline \<Rightarrow> string \<Rightarrow> mode \<Rightarrow> string \<Rightarrow> bool" where
  "selected_with str_lower pl keyword m filename =
     (suffix ''.mp4'' (str_lower filename) \<and>
      (sublist (str_lower keyword) (str_lower filename) \<longleftrightarrow> polarity_of pl = INCLUDE) \<and>
      \<not> (m = COPY \<and> suffix (fixed_suffix pl @ ''.mp4'') (str_lower filename)))"

text \<open>
  On ASCII filenames and keywords: a filename is selected when it ends,
  case-insensitively, with \<open>.mp4\<close>, the keyword occurs in it (case-insensitively, as a
  substring) exactly when the polarity is \<open>INCLUDE\<close>, and, in \<open>COPY\<close> mode, it does not
  end with the output suffix of the pipeline followed by \<open>.mp4\<close>.
\<close>

definition spec_selected :: "pipeline \<Rightarrow> string \<Rightarrow> mode \<Rightarrow> string \<Rightarrow> bool" where
  "spec_selected pl keyword m filename =
     (suffix ''.mp4'' (lower filename) \<and>
      (sublist (lower keyword) (lower filename) \<longleftrightarrow> polarity_of pl = INCLUDE) \<and>
      \<not> (m = COPY \<and> suffix (fixed_suffix pl @ ''.mp4'') (lower filename)))"

text \<open>Every path listed by a walk, and the selected ones among them, in walk order.\<close>

definition listed_paths :: "(string \<times> string list \<times> string list) list \<Rightarrow> string list" where
  "listed_paths tree =
     concat (map (\<lambda>(dirpath, dirnames, filenames). map (path_join dirpath) filenames) tree)"

definition spec_scan :: "pipeline \<Rightarrow> string \<Rightarrow> mode \<Rightarrow> (string \<times> string list \<times> string list) list \<Rightarrow> string list" where
  "spec_scan pl keyword m tree =
     concat (map (\<lambda>(dirpath, dirnames, filenames).
                    map (path_join dirpath) (filter (spec_selected pl keyword m) filenames)) tree)"

section \<open>Names used in the statements\<close>

text \<open>
  The temporary file of overwrite mode; the assumption that every run of the external
  process completes with decodable output and, when its return code is 0, has written
  its output file; and the world in which the processing loop of a pipeline starts (the
  announcements have been printed, nothing else has changed).
\<close>

definition temp_prefix :: "pipeline \<Rightarrow> string" where
  "temp_prefix pl = (case pl of Crop \<Rightarrow> ''temp_crop_'' | Transform \<Rightarrow> ''temp_'')"

definition temp_path :: "pipeline \<Rightarrow> env \<Rightarrow> string \<Rightarrow> string" where
  "temp_path pl e path = fst (job_paths pl (gettempdir e) path True)"

definition tool_completes :: "env \<Rightarrow> bool" where
  "tool_completes e =
     (\<forall>w command. \<exists>rc err out.
        ffmpeg e w command = Completed rc err out \<and> (rc = 0 \<longrightarrow> out \<noteq> None))"

definition start_message :: "pipeline \<Rightarrow> string \<Rightarrow> string \<Rightarrow> string" where
  "start_message pl keyword root_dir =
     ''Starting to search for '' @ [CHR 0x27] @ ''*.mp4'' @ [CHR 0x27] @
     (case pl of Crop \<Rightarrow> '' files without '' | Transform \<Rightarrow> '' files with '') @
     [CHR 0x27] @ keyword @ [CHR 0x27] @ '' in '' @ [CHR 0x27] @ root_dir @ [CHR 0x27] @ ''...''"

definition before_scan :: "pipeline \<Rightarrow> world \<Rightarrow> string \<Rightarrow> string \<Rightarrow> bool \<Rightarrow> world" where
  "before_scan pl w root_dir keyword overwrite =
     (let w1 = print w (start_message pl keyword root_dir)
      in if overwrite
         then print w1 ''WARNING: Overwrite mode is enabled. Original files will be replaced.''
         else w1)"

definition before_loop :: "pipeline \<Rightarrow> world \<Rightarrow> string \<Rightarrow> string \<Rightarrow> bool \<Rightarrow> nat \<Rightarrow> world" where
  "before_loop pl w root_dir keyword overwrite n =
     print (before_scan pl w root_dir keyword overwrite)
       (''Found '' @ str_nat n @ '' video(s) to process.'')"

text \<open>
  Listings whose filenames are single path components, and the relation between the
  listing of a tree and a later listing of the same tree to which a COPY-mode run has
  added some of its output files.
\<close>

definition plain_filenames :: "(string \<times> string list \<times> string list) list \<Rightarrow> bool" where
  "plain_filenames tree =
     list_all (\<lambda>(dirpath, dirnames, filenames). list_all (\<lambda>f. CHR ''/'' \<notin> set f) filenames) tree"

definition after_copy_run ::
  "pipeline \<Rightarrow> string \<Rightarrow> (string \<times> string list \<times> string list) list \<Rightarrow>
   (string \<times> string list \<times> string list) list \<Rightarrow> bool" where
  "after_copy_run pl keyword tree tree' =
     list_all2
       (\<lambda>(dirpath, dirnames, filenames) (dirpath', dirnames', filenames').
          dirpath' = dirpath \<and> dirnames' = dirnames \<and>
          list_all (\<lambda>f. f \<in> set filenames') filenames \<and>
          list_all (\<lambda>f'. f' \<in> set filenames \<or>
                          path_join dirpath f' \<in>
                            set (map (\<lambda>p. snd (job_paths pl [] p False)) (scan pl keyword False tree)))
                   filenames')
       tree tree'"

section \<open>Example inputs\<close>

definition example_tree :: "(string \<times> string list \<times> string list) list" where
  "example_tree =
     [(''/r'', [''sub''], [''a.mp4'', ''a_motion.mp4'', ''b.txt'', ''a_cropped.mp4'']),
      (''/r/sub'', [], [''C.MP4'', ''Motion_x.mp4'', ''x_new.mp4''])]"

definition example_world :: world where
  "example_world =
     \<lparr>files = [''/r/a.mp4'' \<mapsto> ''A'', ''/r/b.mp4'' \<mapsto> ''B'', ''/r/c.mp4'' \<mapsto> ''C''],
      console = [], attempted = []\<rparr>"

definition example_env :: env where
  "example_env =
     \<lparr>gettempdir = ''/tmp'',
      isdir = (\<lambda>fs d. d = ''/r''),
      walk = (\<lambda>fs d. [(''/r'', [], [''a.mp4'', ''b.mp4'', ''c.mp4''])]),
      ffmpeg = (\<lambda>w command.
                  if command ! 3 = ''/r/b.mp4'' then Completed 1 ''boom'' (Some ''partial'')
                  else Completed 0 [] (Some ''video''))\<rparr>"

definition example_env_tool_lost :: env where
  "example_env_tool_lost =
     example_env\<lparr>ffmpeg := (\<lambda>w command.
                  if command ! 3 = ''/r/b.mp4'' then NotFound
                  else Completed 0 [] (Some ''video''))\<rparr>"

definition example_env_undecodable :: env where
  "example_env_undecodable =
     example_env\<lparr>ffmpeg := (\<lambda>w command.
                  if command ! 3 = ''/r/b.mp4'' then Undecodable 1 (Some ''partial'')
                  else Completed 0 [] (Some ''video''))\<rparr>"

definition example_tree_equal_names :: "(string \<times> string list \<times> string list) list" where
  "example_tree_equal_names =
     [(''/r'', [''a'', ''b''], []), (''/r/a'', [], [''x.mp4'']), (''/r/b'', [], [''x.mp4''])]"

definition example_tree_after :: "(string \<times> string list \<times> string list) list" where
  "example_tree_after =
     [(''/r'', [''sub''], [''a.mp4'', ''a_motion.mp4'', ''b.txt'', ''a_cropped.mp4'']),
      (''/r/sub'', [],
       [''C.MP4'', ''C_cropped.MP4'', ''Motion_x.mp4'', ''x_new.mp4'', ''x_new_cropped.mp4''])]"





section \<open>Facts about the string and path functions\<close>

lemma startswith_prefix: "startswith s t \<longleftrightarrow> prefix t s"
  by (induction s t rule: startswith.induct) auto

lemma endswith_suffix: "endswith s t \<longleftrightarrow> suffix t s"
  by (simp add: endswith_def startswith_prefix suffix_to_prefix)

lemma rfind_ge0_iff: "0 \<le> rfind s c \<longleftrightarrow> c \<in> set s"
  by (induction s) auto

lemma rfind_notin: "c \<notin> set s \<Longrightarrow> rfind s c = -1"
  by (induction s) (auto simp: rfind_ge0_iff)

lemma rfind_lower_bound: "-1 \<le> rfind s c"
  by (induction s) auto

lemma rfind_less_length: "rfind s c < int (length s)"
  by (induction s) auto

lemma rfind_append:
  "rfind (s @ t) c = (if c \<in> set t then int (length s) + rfind t c else rfind s c)"
  by (induction s) (auto simp: rfind_ge0_iff rfind_notin)

lemma rfind_snoc: "rfind (s @ [c]) c = int (length s)"
  by (simp add: rfind_append)

lemma rfind_drop: "rfind s c < int i \<Longrightarrow> c \<notin> set (drop i s)"
proof (induction s arbitrary: i)
  case Nil
  then show ?case by simp
next
  case (Cons x xs)
  show ?case
  proof (cases i)
    case 0
    with Cons.prems have "rfind (x # xs) c < 0" by simp
    then have "\<not> 0 \<le> rfind (x # xs) c" by simp
    then have "c \<notin> set (x # xs)" by (simp only: rfind_ge0_iff not_False_eq_True)
    with 0 show ?thesis by simp
  next
    case (Suc j)
    from Cons.prems Suc have "rfind xs c < int j"
      using rfind_lower_bound [of xs c] by (auto split: if_splits)
    then have "c \<notin> set (drop j xs)" by (rule Cons.IH)
    with Suc show ?thesis by simp
  qed
qed

lemma basename_no_sep: "CHR ''/'' \<notin> set (basename p)"
  unfolding basename_def
  by (rule rfind_drop) (use rfind_lower_bound [of p "CHR ''/''"] in auto)

lemma splitext_append: "fst (splitext p) @ snd (splitext p) = p"
  by (simp add: splitext_def Let_def)

lemma splitext_ext_no_sep: "CHR ''/'' \<notin> set (snd (splitext p))"
proof (cases "snd (splitext p) = []")
  case True
  then show ?thesis by simp
next
  case False
  then have lt: "rfind p CHR ''/'' < rfind p CHR ''.''"
    and ext: "snd (splitext p) = drop (nat (rfind p CHR ''.'')) p"
    by (auto simp: splitext_def Let_def split: if_splits)
  have "rfind p CHR ''/'' < int (nat (rfind p CHR ''.''))"
    using lt rfind_lower_bound [of p "CHR ''/''"] by simp
  then show ?thesis unfolding ext by (rule rfind_drop)
qed

text \<open>\<open>dirname\<close> and \<open>basename\<close> look at the last separator only.\<close>

lemma rfind_sep_append:
  "CHR ''/'' \<notin> set x \<Longrightarrow> rfind (b @ x) CHR ''/'' = rfind b CHR ''/''"
  by (simp add: rfind_append)

lemma take_sep_append:
  "take (nat (rfind b CHR ''/'' + 1)) (b @ x) = take (nat (rfind b CHR ''/'' + 1)) b"
proof -
  have "nat (rfind b CHR ''/'' + 1) \<le> length b"
    using rfind_less_length [of b "CHR ''/''"] by simp
  then show ?thesis by simp
qed

lemma dirname_append:
  assumes "CHR ''/'' \<notin> set x" "CHR ''/'' \<notin> set y"
  shows "dirname (b @ x) = dirname (b @ y)"
  unfolding dirname_def
  by (simp only: rfind_sep_append [OF assms(1)] rfind_sep_append [OF assms(2)] take_sep_append)

lemma basename_append:
  assumes "CHR ''/'' \<notin> set x"
  shows "basename (b @ x) = basename b @ x"
proof -
  have "nat (rfind b CHR ''/'' + 1) \<le> length b"
    using rfind_less_length [of b "CHR ''/''"] by simp
  then show ?thesis
    unfolding basename_def by (simp add: rfind_sep_append [OF assms])
qed

lemma py_in_sublist: "py_in t s \<longleftrightarrow> sublist t s"
  by (induction s) (simp_all add: startswith_prefix sublist_Cons_right)

subsection \<open>\<open>splitext\<close> through a decomposition of the path\<close>

lemma rfind_last_occurrence: "c \<notin> set e \<Longrightarrow> rfind (b @ c # e) c = int (length b)"
  by (simp add: rfind_append rfind_notin)

lemma rfind_nth: "0 \<le> rfind s c \<Longrightarrow> s ! nat (rfind s c) = c"
proof (induction s)
  case Nil
  then show ?case by simp
next
  case (Cons x xs)
  show ?case
  proof (cases "0 \<le> rfind xs c")
    case True
    then have "nat (rfind xs c + 1) = Suc (nat (rfind xs c))" by simp
    with True Cons.IH show ?thesis by simp
  next
    case False
    with Cons.prems show ?thesis by (auto split: if_splits)
  qed
qed

lemma path_decomp:
  obtains h where "p = h @ basename p" and "h = [] \<or> last h = CHR ''/''"
proof
  let ?k = "nat (rfind p CHR ''/'' + 1)"
  show "p = take ?k p @ basename p" by (simp add: basename_def)
  show "take ?k p = [] \<or> last (take ?k p) = CHR ''/''"
  proof (cases "0 \<le> rfind p CHR ''/''")
    case False
    then show ?thesis by simp
  next
    case True
    have lt: "nat (rfind p CHR ''/'') < length p"
      using True rfind_less_length [of p "CHR ''/''"] by simp
    have k: "?k = Suc (nat (rfind p CHR ''/''))" using True by simp
    have "take ?k p = take (nat (rfind p CHR ''/'')) p @ [p ! nat (rfind p CHR ''/'')]"
      unfolding k using lt by (rule take_Suc_conv_app_nth)
    then show ?thesis by (simp add: rfind_nth [OF True])
  qed
qed

lemma rfind_sep_head:
  assumes "CHR ''/'' \<notin> set n" "h = [] \<or> last h = CHR ''/''"
  shows "rfind (h @ n) CHR ''/'' = int (length h) - 1"
proof (cases "h = []")
  case True
  with assms show ?thesis by (simp add: rfind_notin)
next
  case False
  with assms(2) obtain h0 where h0: "h = h0 @ [CHR ''/'']"
    by (metis append_butlast_last_id)
  show ?thesis using assms(1) unfolding h0 by (simp add: rfind_append rfind_ge0_iff)
qed

lemma basename_head:
  assumes "CHR ''/'' \<notin> set n" "h = [] \<or> last h = CHR ''/''"
  shows "basename (h @ n) = n"
  unfolding basename_def by (simp add: rfind_sep_head [OF assms])

lemma splitext_head:
  assumes "CHR ''/'' \<notin> set n" "h = [] \<or> last h = CHR ''/''"
  shows "splitext (h @ n) = (h @ fst (splitext n), snd (splitext n))"
proof -
  have sep: "rfind (h @ n) CHR ''/'' = int (length h) - 1"
    by (rule rfind_sep_head [OF assms])
  have sepn: "rfind n CHR ''/'' = -1"
    using assms(1) by (rule rfind_notin)
  show ?thesis
  proof (cases "CHR ''.'' \<in> set n")
    case False
    have dot: "rfind (h @ n) CHR ''.'' = rfind h CHR ''.''"
      using False by (simp add: rfind_append)
    have dotn: "rfind n CHR ''.'' = -1"
      using False by (rule rfind_notin)
    have "rfind h CHR ''.'' < int (length h)" by (rule rfind_less_length)
    then show ?thesis
      unfolding splitext_def sep sepn dot dotn by simp
  next
    case True
    then have ge: "0 \<le> rfind n CHR ''.''" by (simp add: rfind_ge0_iff)
    have dot: "rfind (h @ n) CHR ''.'' = int (length h) + rfind n CHR ''.''"
      using True by (simp add: rfind_append)
    have n1: "nat (int (length h) + rfind n CHR ''.'') = length h + nat (rfind n CHR ''.'')"
      using ge by (simp add: nat_add_distrib)
    show ?thesis
      unfolding splitext_def sep sepn dot using ge by (simp add: n1 Let_def)
  qed
qed

lemma splitext_nodot:
  "CHR ''.'' \<notin> set n \<Longrightarrow> splitext n = (n, [])"
  using rfind_lower_bound [of n "CHR ''/''"] by (simp add: splitext_def rfind_notin)

lemma splitext_dot:
  assumes "CHR ''/'' \<notin> set b" "CHR ''/'' \<notin> set e" "CHR ''.'' \<notin> set e"
  shows "splitext (b @ CHR ''.'' # e) =
           (if list_ex (\<lambda>x. x \<noteq> CHR ''.'') b then (b, CHR ''.'' # e) else (b @ CHR ''.'' # e, []))"
  using assms by (simp add: splitext_def rfind_last_occurrence rfind_notin)

lemma name_cases:
  obtains (nodot) "CHR ''.'' \<notin> set n"
  | (dot) b e where "n = b @ CHR ''.'' # e" "CHR ''.'' \<notin> set e"
  by (meson split_list_last)

lemma splitext_suffixed_name:
  assumes n: "CHR ''/'' \<notin> set n" and s: "CHR ''/'' \<notin> set sfx" "CHR ''.'' \<notin> set sfx"
  shows "splitext (fst (splitext n) @ sfx @ snd (splitext n)) = (fst (splitext n) @ sfx, snd (splitext n))"
proof (cases n rule: name_cases)
  case nodot
  then show ?thesis using s by (simp add: splitext_nodot)
next
  case (dot b e)
  with n have be: "CHR ''/'' \<notin> set b" "CHR ''/'' \<notin> set e" by simp_all
  show ?thesis
  proof (cases "list_ex (\<lambda>x. x \<noteq> CHR ''.'') b")
    case True
    have "splitext ((b @ sfx) @ CHR ''.'' # e) = (b @ sfx, CHR ''.'' # e)"
      using be s dot(2) True by (subst splitext_dot) simp_all
    then show ?thesis using True be dot by (simp add: splitext_dot)
  next
    case False
    have "splitext (b @ CHR ''.'' # (e @ sfx)) = (b @ CHR ''.'' # (e @ sfx), [])"
      using be s dot(2) False by (subst splitext_dot) simp_all
    then show ?thesis using False be dot by (simp add: splitext_dot)
  qed
qed

lemma splitext_name_no_sep:
  "CHR ''/'' \<notin> set n \<Longrightarrow> CHR ''/'' \<notin> set (fst (splitext n))"
  using splitext_append [of n] by (metis Un_iff set_append)

lemma splitext_suffixed:
  assumes s: "CHR ''/'' \<notin> set sfx" "CHR ''.'' \<notin> set sfx"
  shows "splitext (fst (splitext p) @ sfx @ snd (splitext p)) = (fst (splitext p) @ sfx, snd (splitext p))"
proof -
  obtain h where p: "p = h @ basename p" and h: "h = [] \<or> last h = CHR ''/''"
    by (rule path_decomp)
  let ?n = "basename p"
  have n: "CHR ''/'' \<notin> set ?n" by (rule basename_no_sep)
  have sp: "splitext p = (h @ fst (splitext ?n), snd (splitext ?n))"
    using splitext_head [OF n h] p by simp
  have n': "CHR ''/'' \<notin> set (fst (splitext ?n) @ sfx @ snd (splitext ?n))"
    using splitext_name_no_sep [OF n] splitext_ext_no_sep [of ?n] s by simp
  have "splitext (h @ (fst (splitext ?n) @ sfx @ snd (splitext ?n))) =
          (h @ fst (splitext (fst (splitext ?n) @ sfx @ snd (splitext ?n))),
           snd (splitext (fst (splitext ?n) @ sfx @ snd (splitext ?n))))"
    using n' h by (rule splitext_head)
  then show ?thesis
    by (simp add: sp splitext_suffixed_name [OF n s])
qed

section \<open>The scanner\<close>

lemma crop_scan_dir_eq:
  "crop_scan_dir L kw ov d fs acc =
     acc @ map (path_join d) (filter (selected_with L Crop kw (mode_of ov)) fs)"
  by (induction fs arbitrary: acc)
     (auto simp: selected_with_def polarity_of_def fixed_suffix_def mode_of_def
                 endswith_suffix py_in_sublist)

lemma crop_scan_eq:
  "crop_scan L kw ov tree acc =
     acc @ concat (map (\<lambda>(d, ds, fs).
             map (path_join d) (filter (selected_with L Crop kw (mode_of ov)) fs)) tree)"
  by (induction tree arbitrary: acc) (auto simp: crop_scan_dir_eq)

lemma process_scan_dir_eq:
  "process_scan_dir L kw ov d fs acc =
     acc @ map (path_join d) (filter (selected_with L Transform kw (mode_of ov)) fs)"
  by (induction fs arbitrary: acc)
     (auto simp: selected_with_def polarity_of_def fixed_suffix_def mode_of_def
                 endswith_suffix py_in_sublist)

lemma process_scan_eq:
  "process_scan L kw ov tree acc =
     acc @ concat (map (\<lambda>(d, ds, fs).
             map (path_join d) (filter (selected_with L Transform kw (mode_of ov)) fs)) tree)"
  by (induction tree arbitrary: acc) (auto simp: process_scan_dir_eq)

lemma scan_with_eq:
  "scan_with L pl kw ov tree =
     concat (map (\<lambda>(d, ds, fs).
       map (path_join d) (filter (selected_with L pl kw (mode_of ov)) fs)) tree)"
  by (cases pl) (simp_all add: scan_with_def crop_scan_eq process_scan_eq)

lemma scan_eq_scan_with: "scan pl kw ov tree = scan_with lower pl kw ov tree"
  by (simp add: scan_def scan_with_def)

lemma spec_selected_eq: "spec_selected pl kw m = selected_with lower pl kw m"
  by (rule ext) (simp add: spec_selected_def selected_with_def)

lemma scan_eq_spec_scan: "scan pl kw ov tree = spec_scan pl kw (mode_of ov) tree"
  by (simp add: scan_eq_scan_with scan_with_eq spec_scan_def spec_selected_eq)

text \<open>A walk filtered by any predicate on filenames.\<close>

lemma set_filtered_walk:
  "set (concat (map (\<lambda>(d, ds, fs). map (path_join d) (filter P fs)) tree)) =
     {path_join d f | d ds fs f. (d, ds, fs) \<in> set tree \<and> f \<in> set fs \<and> P f}"
  by auto

lemma filtered_walk_subset:
  "set (concat (map (\<lambda>(d, ds, fs). map (path_join d) (filter P fs)) tree)) \<subseteq> set (listed_paths tree)"
  by (auto simp: listed_paths_def)


lemma set_spec_scan:
  "set (spec_scan pl kw m tree) =
     {path_join d f | d ds fs f. (d, ds, fs) \<in> set tree \<and> f \<in> set fs \<and> spec_selected pl kw m f}"
  unfolding spec_scan_def by (rule set_filtered_walk)

lemma set_spec_scan_subset: "set (spec_scan pl kw m tree) \<subseteq> set (listed_paths tree)"
  unfolding spec_scan_def by (rule filtered_walk_subset)




section \<open>Destination and temporary paths\<close>

lemma fixed_suffix_chars:
  "CHR ''/'' \<notin> set (fixed_suffix pl)" "CHR ''.'' \<notin> set (fixed_suffix pl)" "fixed_suffix pl \<noteq> []"
  by (cases pl; simp add: fixed_suffix_def)+

lemma job_paths_overwrite:
  "job_paths pl tmp p True = (path_join tmp ((case pl of Crop \<Rightarrow> ''temp_crop_'' | Transform \<Rightarrow> ''temp_'') @ basename p), p)"
  by (cases pl) (simp_all add: job_paths_def crop_paths_def re_encode_paths_def)

lemma job_paths_copy:
  "job_paths pl tmp p False =
     (fst (splitext p) @ fixed_suffix pl @ snd (splitext p),
      fst (splitext p) @ fixed_suffix pl @ snd (splitext p))"
  by (cases pl)
     (simp_all add: job_paths_def crop_paths_def re_encode_paths_def fixed_suffix_def split: prod.splits)

lemma splitext_stem_ext:
  assumes "dir = [] \<or> last dir = CHR ''/''" "CHR ''/'' \<notin> set stem"
    "\<exists>x\<in>set stem. x \<noteq> CHR ''.''" "CHR ''/'' \<notin> set ext" "CHR ''.'' \<notin> set ext"
  shows "splitext (dir @ stem @ CHR ''.'' # ext) = (dir @ stem, CHR ''.'' # ext)"
proof -
  have n: "CHR ''/'' \<notin> set (stem @ CHR ''.'' # ext)" using assms(2,4) by simp
  have "list_ex (\<lambda>x. x \<noteq> CHR ''.'') stem" using assms(3) by (simp add: list_ex_iff)
  then have "splitext (stem @ CHR ''.'' # ext) = (stem, CHR ''.'' # ext)"
    using splitext_dot [OF assms(2,4,5)] by simp
  then show ?thesis using splitext_head [OF n assms(1)] by simp
qed

lemma splitext_leading_dots:
  assumes "dir = [] \<or> last dir = CHR ''/''" "CHR ''/'' \<notin> set name" "CHR ''.'' \<notin> set name"
  shows "splitext (dir @ replicate k CHR ''.'' @ name) = (dir @ replicate k CHR ''.'' @ name, [])"
proof -
  let ?n = "replicate k CHR ''.'' @ name"
  have n: "CHR ''/'' \<notin> set ?n" using assms(2) by simp
  have "splitext ?n = (?n, [])"
  proof (cases k)
    case 0
    then show ?thesis using assms(3) by (simp add: splitext_nodot)
  next
    case (Suc j)
    have b: "CHR ''/'' \<notin> set (replicate j CHR ''.'')" by simp
    have "\<not> list_ex (\<lambda>x. x \<noteq> CHR ''.'') (replicate j CHR ''.'')" by (simp add: list_ex_iff)
    then have "splitext (replicate j CHR ''.'' @ CHR ''.'' # name) =
                 (replicate j CHR ''.'' @ CHR ''.'' # name, [])"
      using splitext_dot [OF b assms(2,3)] by simp
    moreover have "?n = replicate j CHR ''.'' @ CHR ''.'' # name"
      unfolding Suc by (simp add: replicate_append_same)
    ultimately show ?thesis by simp
  qed
  then show ?thesis using splitext_head [OF n assms(1)] by simp
qed

text \<open>
  Claim C6. The destination path is a function of the source path and the mode alone
  (the scratch directory plays no part in it). In OVERWRITE mode it is the source path.
  In COPY mode it is the stem of \<open>splitext\<close> followed by the fixed suffix of the
  pipeline (\<open>_cropped\<close> or \<open>_new\<close>) and the extension; the stem and the extension
  make up the source path, the destination splits into the suffixed stem and the same
  extension, it lies in the same directory, and it differs from the source path.
  What the stem and the extension are: when the last component of the path is a stem
  with a character other than a dot, then a dot, then an extension without dots, the
  path splits before that last dot and the suffix is inserted there; when the last
  component has no dot except leading ones, there is no extension and the suffix is
  appended to the path.
\<close>

theorem destination_path_is_source_or_suffixed_sibling:
  "snd (job_paths pl tmp p overwrite) = snd (job_paths pl tmp' p overwrite) \<and>
   snd (job_paths pl tmp p True) = p \<and>
   snd (job_paths pl tmp p False) = fst (splitext p) @ fixed_suffix pl @ snd (splitext p) \<and>
   fst (splitext p) @ snd (splitext p) = p \<and>
   splitext (snd (job_paths pl tmp p False)) = (fst (splitext p) @ fixed_suffix pl, snd (splitext p)) \<and>
   dirname (snd (job_paths pl tmp p False)) = dirname p \<and>
   snd (job_paths pl tmp p False) \<noteq> p \<and>
   ((dir = [] \<or> last dir = CHR ''/'') \<and> CHR ''/'' \<notin> set stem \<and>
    (\<exists>x\<in>set stem. x \<noteq> CHR ''.'') \<and> CHR ''/'' \<notin> set ext \<and> CHR ''.'' \<notin> set ext \<longrightarrow>
      splitext (dir @ stem @ CHR ''.'' # ext) = (dir @ stem, CHR ''.'' # ext) \<and>
      snd (job_paths pl tmp (dir @ stem @ CHR ''.'' # ext) False) =
        dir @ stem @ fixed_suffix pl @ CHR ''.'' # ext) \<and>
   ((dir = [] \<or> last dir = CHR ''/'') \<and> CHR ''/'' \<notin> set name \<and> CHR ''.'' \<notin> set name \<longrightarrow>
      splitext (dir @ replicate k CHR ''.'' @ name) = (dir @ replicate k CHR ''.'' @ name, []) \<and>
      snd (job_paths pl tmp (dir @ replicate k CHR ''.'' @ name) False) =
        dir @ replicate k CHR ''.'' @ name @ fixed_suffix pl)"
proof -
  let ?b = "fst (splitext p)" and ?e = "snd (splitext p)" and ?s = "fixed_suffix pl"
  have pure: "snd (job_paths pl tmp p overwrite) = snd (job_paths pl tmp' p overwrite)"
    by (cases overwrite) (simp_all add: job_paths_overwrite job_paths_copy)
  have p: "?b @ ?e = p" by (rule splitext_append)
  have ext: "splitext (?b @ ?s @ ?e) = (?b @ ?s, ?e)"
    by (rule splitext_suffixed) (rule fixed_suffix_chars)+
  have "dirname (?b @ (?s @ ?e)) = dirname (?b @ ?e)"
    by (rule dirname_append) (simp_all add: fixed_suffix_chars splitext_ext_no_sep)
  then have dir: "dirname (?b @ ?s @ ?e) = dirname p" by (simp only: p)
  have ne: "?b @ ?s @ ?e \<noteq> p"
  proof
    assume "?b @ ?s @ ?e = p"
    then have "length (?b @ ?s @ ?e) = length p" by simp
    also have "length p = length (?b @ ?e)" by (simp only: p)
    finally show False using fixed_suffix_chars(3) [of pl] by simp
  qed
  have general: "snd (job_paths pl tmp p overwrite) = snd (job_paths pl tmp' p overwrite) \<and>
     snd (job_paths pl tmp p True) = p \<and>
     snd (job_paths pl tmp p False) = ?b @ ?s @ ?e \<and> ?b @ ?e = p \<and>
     splitext (snd (job_paths pl tmp p False)) = (?b @ ?s, ?e) \<and>
     dirname (snd (job_paths pl tmp p False)) = dirname p \<and>
     snd (job_paths pl tmp p False) \<noteq> p"
    using pure p ext dir ne by (simp add: job_paths_overwrite job_paths_copy)
  have split: "(dir = [] \<or> last dir = CHR ''/'') \<and> CHR ''/'' \<notin> set stem \<and>
      (\<exists>x\<in>set stem. x \<noteq> CHR ''.'') \<and> CHR ''/'' \<notin> set ext \<and> CHR ''.'' \<notin> set ext \<longrightarrow>
      splitext (dir @ stem @ CHR ''.'' # ext) = (dir @ stem, CHR ''.'' # ext) \<and>
      snd (job_paths pl tmp (dir @ stem @ CHR ''.'' # ext) False) =
        dir @ stem @ fixed_suffix pl @ CHR ''.'' # ext"
    by (simp add: job_paths_copy splitext_stem_ext)
  have nosplit: "(dir = [] \<or> last dir = CHR ''/'') \<and> CHR ''/'' \<notin> set name \<and> CHR ''.'' \<notin> set name \<longrightarrow>
      splitext (dir @ replicate k CHR ''.'' @ name) = (dir @ replicate k CHR ''.'' @ name, []) \<and>
      snd (job_paths pl tmp (dir @ replicate k CHR ''.'' @ name) False) =
        dir @ replicate k CHR ''.'' @ name @ fixed_suffix pl"
    by (simp add: job_paths_copy splitext_leading_dots)
  from general split nosplit show ?thesis by blast
qed

theorem destination_path_is_source_or_suffixed_sibling_witness:
  "(''/r/'' = [] \<or> last ''/r/'' = CHR ''/'') \<and> CHR ''/'' \<notin> set ''a'' \<and>
   (\<exists>x\<in>set ''a''. x \<noteq> CHR ''.'') \<and> CHR ''/'' \<notin> set ''mp4'' \<and> CHR ''.'' \<notin> set ''mp4'' \<and>
   splitext ''/r/a.mp4'' = (''/r/a'', ''.mp4'') \<and>
   snd (job_paths Crop ''/tmp'' ''/r/a.mp4'' False) = ''/r/a_cropped.mp4'' \<and>
   snd (job_paths Transform ''/tmp'' ''/r/a.mp4'' False) = ''/r/a_new.mp4'' \<and>
   splitext ''/r/.mp4'' = (''/r/.mp4'', []) \<and>
   snd (job_paths Crop ''/tmp'' ''/r/.mp4'' False) = ''/r/.mp4_cropped''"
proof -
  have h: "(''/r/'' = [] \<or> last ''/r/'' = CHR ''/'') \<and> CHR ''/'' \<notin> set ''a'' \<and>
     (\<exists>x\<in>set ''a''. x \<noteq> CHR ''.'') \<and> CHR ''/'' \<notin> set ''mp4'' \<and> CHR ''.'' \<notin> set ''mp4''"
    by simp
  have h': "(''/r/'' = [] \<or> last ''/r/'' = CHR ''/'') \<and> CHR ''/'' \<notin> set ''mp4'' \<and>
     CHR ''.'' \<notin> set ''mp4''"
    by simp
  have c: "splitext (''/r/'' @ ''a'' @ CHR ''.'' # ''mp4'') = (''/r/'' @ ''a'', CHR ''.'' # ''mp4'') \<and>
      snd (job_paths Crop ''/tmp'' (''/r/'' @ ''a'' @ CHR ''.'' # ''mp4'') False) =
        ''/r/'' @ ''a'' @ fixed_suffix Crop @ CHR ''.'' # ''mp4''"
    using destination_path_is_source_or_suffixed_sibling
            [where pl = Crop and tmp = "''/tmp''" and dir = "''/r/''" and stem = "''a''"
               and ext = "''mp4''" and name = "''mp4''" and k = 1] h
    by blast
  have t: "snd (job_paths Transform ''/tmp'' (''/r/'' @ ''a'' @ CHR ''.'' # ''mp4'') False) =
        ''/r/'' @ ''a'' @ fixed_suffix Transform @ CHR ''.'' # ''mp4''"
    using destination_path_is_source_or_suffixed_sibling
            [where pl = Transform and tmp = "''/tmp''" and dir = "''/r/''" and stem = "''a''"
               and ext = "''mp4''" and name = "''mp4''" and k = 1] h
    by blast
  have d: "splitext (''/r/'' @ replicate 1 CHR ''.'' @ ''mp4'') =
        (''/r/'' @ replicate 1 CHR ''.'' @ ''mp4'', []) \<and>
      snd (job_paths Crop ''/tmp'' (''/r/'' @ replicate 1 CHR ''.'' @ ''mp4'') False) =
        ''/r/'' @ replicate 1 CHR ''.'' @ ''mp4'' @ fixed_suffix Crop"
    using destination_path_is_source_or_suffixed_sibling
            [where pl = Crop and tmp = "''/tmp''" and dir = "''/r/''" and stem = "''a''"
               and ext = "''mp4''" and name = "''mp4''" and k = 1] h'
    by blast
  from h c t d show ?thesis by (simp add: fixed_suffix_def)
qed

lemma temp_prefix_no_sep: "CHR ''/'' \<notin> set (temp_prefix pl)"
  by (cases pl) (simp_all add: temp_prefix_def)

lemma temp_prefix_nonempty: "temp_prefix pl \<noteq> []"
  by (cases pl) (simp_all add: temp_prefix_def)

lemma temp_path_eq: "temp_path pl e p = path_join (gettempdir e) (temp_prefix pl @ basename p)"
  by (cases pl) (simp_all add: temp_path_def job_paths_def crop_paths_def re_encode_paths_def temp_prefix_def)

lemma path_join_name:
  assumes "CHR ''/'' \<notin> set n"
  obtains h where "path_join d n = h @ n" and "h = [] \<or> last h = CHR ''/''"
proof -
  have ns: "\<not> startswith n ''/''" using assms by (cases n) auto
  show ?thesis
  proof (cases "d = [] \<or> endswith d ''/''")
    case True
    then have "path_join d n = d @ n" using ns by (simp add: path_join_def)
    moreover have "d = [] \<or> last d = CHR ''/''"
      using True by (auto simp: endswith_suffix suffix_def)
    ultimately show ?thesis by (rule that)
  next
    case False
    then have "path_join d n = (d @ ''/'') @ n" using ns by (simp add: path_join_def)
    moreover have "d @ ''/'' = [] \<or> last (d @ ''/'') = CHR ''/''" by simp
    ultimately show ?thesis by (rule that)
  qed
qed

lemma basename_path_join: "CHR ''/'' \<notin> set n \<Longrightarrow> basename (path_join d n) = n"
  by (metis path_join_name basename_head)

lemma basename_temp_path: "basename (temp_path pl e p) = temp_prefix pl @ basename p"
  unfolding temp_path_eq
  by (rule basename_path_join) (simp add: temp_prefix_no_sep basename_no_sep)

lemma temp_path_ne_source: "temp_path pl e p \<noteq> p"
proof
  assume "temp_path pl e p = p"
  then have "basename (temp_path pl e p) = basename p" by simp
  then have "length (temp_prefix pl @ basename p) = length (basename p)"
    by (simp only: basename_temp_path)
  then show False using temp_prefix_nonempty [of pl] by simp
qed

lemma temp_path_eq_iff: "temp_path pl e q = temp_path pl e p \<longleftrightarrow> basename q = basename p"
proof
  assume "temp_path pl e q = temp_path pl e p"
  then have "basename (temp_path pl e q) = basename (temp_path pl e p)" by simp
  then show "basename q = basename p" by (simp add: basename_temp_path)
next
  assume "basename q = basename p"
  then show "temp_path pl e q = temp_path pl e p" by (simp add: temp_path_eq)
qed

lemma last_command_for:
  "last (command_for pl e ov p) = fst (job_paths pl (gettempdir e) p ov)"
  by (cases pl) (simp_all add: command_for_def job_command_def crop_command_def re_encode_command_def)

lemma input_of_command_for: "command_for pl e ov p ! 3 = p"
  by (cases pl) (simp_all add: command_for_def job_command_def crop_command_def re_encode_command_def)

subsection \<open>One job, case by case on the answer of the external process\<close>

lemma run_job_not_found:
  assumes "tool_answer pl e w p ov = NotFound"
  shows "run_job pl e w p ov =
           (SystemExit, w\<lparr>console := console w @ [''Processing: '' @ p, ffmpeg_not_found_msg],
                          attempted := attempted w @ [command_for pl e ov p]\<rparr>)"
  using assms
  by (cases pl)
     (simp_all add: run_job_def crop_video_top_half_def re_encode_video_def tool_answer_def
        command_for_def job_command_def job_paths_def subprocess_run_def print_def Let_def)

lemma run_job_cannot_start:
  assumes "tool_answer pl e w p ov = CannotStart"
  shows "run_job pl e w p ov =
           (Uncaught, w\<lparr>console := console w @ [''Processing: '' @ p],
                        attempted := attempted w @ [command_for pl e ov p]\<rparr>)"
  using assms
  by (cases pl)
     (simp_all add: run_job_def crop_video_top_half_def re_encode_video_def tool_answer_def
        command_for_def job_command_def job_paths_def subprocess_run_def print_def Let_def)

lemma run_job_undecodable:
  assumes "tool_answer pl e w p ov = Undecodable rc out"
  shows "fst (run_job pl e w p ov) = Uncaught"
    and "attempted (snd (run_job pl e w p ov)) = attempted w @ [command_for pl e ov p]"
    and "console (snd (run_job pl e w p ov)) = console w @ [''Processing: '' @ p]"
    and "files (snd (run_job pl e w p ov)) =
           (case out of None \<Rightarrow> files w
            | Some c \<Rightarrow> (files w)(fst (job_paths pl (gettempdir e) p ov) \<mapsto> c))"
  using assms
  by (cases pl; cases out;
      simp add: run_job_def crop_video_top_half_def re_encode_video_def tool_answer_def
        command_for_def job_command_def job_paths_def subprocess_run_def print_def Let_def
        crop_command_def re_encode_command_def)+

lemma run_job_failed:
  assumes "tool_answer pl e w p ov = Completed rc err out" "rc \<noteq> 0"
  shows "fst (run_job pl e w p ov) = Returned"
    and "attempted (snd (run_job pl e w p ov)) = attempted w @ [command_for pl e ov p]"
    and "console (snd (run_job pl e w p ov)) =
           console w @ [''Processing: '' @ p, ''ERROR processing '' @ p @ '':'',
                        ''  Return code: '' @ str_int rc, ''  Stderr: '' @ err]"
    and "files (snd (run_job pl e w p ov)) =
           (if ov then (files w)(temp_path pl e p := None)
            else case out of None \<Rightarrow> files w
                 | Some c \<Rightarrow> (files w)(snd (job_paths pl (gettempdir e) p False) \<mapsto> c))"
  using assms
  by (cases pl; cases out; cases ov;
      auto simp: run_job_def crop_video_top_half_def re_encode_video_def tool_answer_def
        command_for_def job_command_def job_paths_def subprocess_run_def print_def Let_def
        temp_path_def crop_command_def re_encode_command_def crop_paths_def re_encode_paths_def
        split: prod.splits)+

lemma run_job_succeeded_overwrite:
  assumes "tool_answer pl e w p True = Completed 0 err out"
  shows "(case out of None \<Rightarrow> files w (temp_path pl e p) | Some c \<Rightarrow> Some c) = None \<Longrightarrow>
           fst (run_job pl e w p True) = SystemExit \<and> files (snd (run_job pl e w p True)) = files w"
    and "(case out of None \<Rightarrow> files w (temp_path pl e p) | Some c \<Rightarrow> Some c) = Some c' \<Longrightarrow>
           fst (run_job pl e w p True) = Returned \<and>
           files (snd (run_job pl e w p True)) = ((files w)(temp_path pl e p := None))(p \<mapsto> c')"
  using assms
  by (cases pl; cases out;
      auto simp: run_job_def crop_video_top_half_def re_encode_video_def tool_answer_def
        command_for_def job_command_def job_paths_def subprocess_run_def print_def Let_def
        temp_path_def crop_command_def re_encode_command_def crop_paths_def re_encode_paths_def
        shutil_move_def
        split: prod.splits option.splits)+

lemma run_job_succeeded_copy:
  assumes "tool_answer pl e w p False = Completed 0 err out"
  shows "fst (run_job pl e w p False) = Returned"
    and "files (snd (run_job pl e w p False)) =
           (case out of None \<Rightarrow> files w
            | Some c \<Rightarrow> (files w)(snd (job_paths pl (gettempdir e) p False) \<mapsto> c))"
  using assms
  by (cases pl; cases out;
      auto simp: run_job_def crop_video_top_half_def re_encode_video_def tool_answer_def
        command_for_def job_command_def job_paths_def subprocess_run_def print_def Let_def
        crop_command_def re_encode_command_def crop_paths_def re_encode_paths_def
        split: prod.splits option.splits)+

lemma subprocess_run_world:
  "attempted (snd (subprocess_run e w command)) = attempted w @ [command]"
  "console (snd (subprocess_run e w command)) = console w"
  by (simp_all add: subprocess_run_def Let_def split: proc_result.splits option.splits)

lemma attempted_run_job:
  "attempted (snd (run_job pl e w p ov)) = attempted w @ [command_for pl e ov p]"
proof -
  let ?w0 = "print w (''Processing: '' @ p)"
  obtain r w1 where s: "subprocess_run e ?w0 (command_for pl e ov p) = (r, w1)"
    by (cases "subprocess_run e ?w0 (command_for pl e ov p)")
  from subprocess_run_world(1) [of e ?w0 "command_for pl e ov p"] s
  have a: "attempted w1 = attempted w @ [command_for pl e ov p]" by (simp add: print_def)
  have "attempted (snd (crop_video_top_half e w p ov)) = attempted w @ [command_for Crop e ov p]"
    if "subprocess_run e ?w0 (command_for Crop e ov p) = (r, w1)"
      "attempted w1 = attempted w @ [command_for Crop e ov p]"
    using that
    by (cases r)
       (simp_all add: crop_video_top_half_def command_for_def job_command_def job_paths_def
          print_def Let_def shutil_move_def split: option.splits)
  moreover have "attempted (snd (re_encode_video e w p ov)) = attempted w @ [command_for Transform e ov p]"
    if "subprocess_run e ?w0 (command_for Transform e ov p) = (r, w1)"
      "attempted w1 = attempted w @ [command_for Transform e ov p]"
    using that
    by (cases r)
       (simp_all add: re_encode_video_def command_for_def job_command_def job_paths_def
          print_def Let_def shutil_move_def split: option.splits)
  ultimately show ?thesis using s a by (cases pl) (simp_all add: run_job_def)
qed

lemma console_run_job:
  "prefix (console w) (console (snd (run_job pl e w p ov)))"
proof -
  let ?w0 = "print w (''Processing: '' @ p)"
  obtain r w1 where s: "subprocess_run e ?w0 (command_for pl e ov p) = (r, w1)"
    by (cases "subprocess_run e ?w0 (command_for pl e ov p)")
  from subprocess_run_world(2) [of e ?w0 "command_for pl e ov p"] s
  have a: "console w1 = console w @ [''Processing: '' @ p]" by (simp add: print_def)
  have "prefix (console w) (console (snd (crop_video_top_half e w p ov)))"
    if "subprocess_run e ?w0 (command_for Crop e ov p) = (r, w1)"
      "console w1 = console w @ [''Processing: '' @ p]"
    using that
    by (cases r)
       (simp_all add: crop_video_top_half_def command_for_def job_command_def job_paths_def
          print_def Let_def shutil_move_def split: option.splits)
  moreover have "prefix (console w) (console (snd (re_encode_video e w p ov)))"
    if "subprocess_run e ?w0 (command_for Transform e ov p) = (r, w1)"
      "console w1 = console w @ [''Processing: '' @ p]"
    using that
    by (cases r)
       (simp_all add: re_encode_video_def command_for_def job_command_def job_paths_def
          print_def Let_def shutil_move_def split: option.splits)
  ultimately show ?thesis using s a by (cases pl) (simp_all add: run_job_def)
qed

lemma run_job_returns:
  assumes "tool_completes e"
  shows "fst (run_job pl e w p ov) = Returned"
proof -
  from assms obtain rc err out
    where Completed: "tool_answer pl e w p ov = Completed rc err out"
      and written: "rc = 0 \<longrightarrow> out \<noteq> None"
    unfolding tool_completes_def tool_answer_def by blast
  show ?thesis
  proof (cases "rc = 0")
    case False
    with Completed show ?thesis by (simp add: run_job_failed(1))
  next
    case True
    with written obtain c where out: "out = Some c" by auto
    show ?thesis
    proof (cases ov)
      case True
      with Completed \<open>rc = 0\<close> out run_job_succeeded_overwrite(2) [of pl e w p err out c]
      show ?thesis by simp
    next
      case False
      with Completed \<open>rc = 0\<close> run_job_succeeded_copy(1) [of pl e w p err out]
      show ?thesis by simp
    qed
  qed
qed

subsection \<open>The processing loop\<close>

lemma run_each_Nil: "run_each pl e w [] ov = (Returned, w)"
  by (cases pl) (simp_all add: run_each_def)

lemma run_each_Cons:
  "run_each pl e w (p # ps) ov =
     (case run_job pl e w p ov of
        (SystemExit, w') \<Rightarrow> (SystemExit, w')
      | (Uncaught, w') \<Rightarrow> (Uncaught, w')
      | (Returned, w') \<Rightarrow> run_each pl e w' ps ov)"
  by (cases pl) (simp_all add: run_each_def run_job_def split: prod.splits control.splits)

lemma run_each_append:
  "run_each pl e w (xs @ ys) ov =
     (case run_each pl e w xs ov of
        (SystemExit, w') \<Rightarrow> (SystemExit, w')
      | (Uncaught, w') \<Rightarrow> (Uncaught, w')
      | (Returned, w') \<Rightarrow> run_each pl e w' ys ov)"
proof (induction xs arbitrary: w)
  case Nil
  then show ?case by (simp add: run_each_Nil)
next
  case (Cons x xs)
  show ?case
  proof (cases "run_job pl e w x ov")
    case (Pair c w')
    then show ?thesis by (cases c) (simp_all add: run_each_Cons Cons.IH)
  qed
qed

lemma attempted_run_each_returned:
  "fst (run_each pl e w ps ov) = Returned \<Longrightarrow>
     attempted (snd (run_each pl e w ps ov)) = attempted w @ map (command_for pl e ov) ps"
proof (induction ps arbitrary: w)
  case Nil
  then show ?case by (simp add: run_each_Nil)
next
  case (Cons p ps)
  obtain c w' where j: "run_job pl e w p ov = (c, w')" by (cases "run_job pl e w p ov")
  with Cons.prems have c: "c = Returned" by (cases c) (simp_all add: run_each_Cons)
  have a: "attempted w' = attempted w @ [command_for pl e ov p]"
    using attempted_run_job [of pl e w p ov] j by simp
  from Cons.prems j c have "fst (run_each pl e w' ps ov) = Returned"
    by (simp add: run_each_Cons)
  then have "attempted (snd (run_each pl e w' ps ov)) = attempted w' @ map (command_for pl e ov) ps"
    by (rule Cons.IH)
  with j c a show ?case by (simp add: run_each_Cons)
qed

lemma attempted_run_each_prefix:
  "\<exists>k\<le>length ps. attempted (snd (run_each pl e w ps ov)) =
       attempted w @ map (command_for pl e ov) (take k ps)"
proof (induction ps arbitrary: w)
  case Nil
  then show ?case by (simp add: run_each_Nil)
next
  case (Cons p ps)
  obtain c w' where j: "run_job pl e w p ov = (c, w')" by (cases "run_job pl e w p ov")
  have a: "attempted w' = attempted w @ [command_for pl e ov p]"
    using attempted_run_job [of pl e w p ov] j by simp
  show ?case
  proof (cases "c = Returned")
    case False
    with j a have "attempted (snd (run_each pl e w (p # ps) ov)) =
        attempted w @ map (command_for pl e ov) (take (Suc 0) (p # ps))"
      by (cases c) (simp_all add: run_each_Cons)
    then show ?thesis by (intro exI [of _ "Suc 0"]) simp
  next
    case Returned: True
    from Cons.IH [of w'] obtain k where k: "k \<le> length ps"
      "attempted (snd (run_each pl e w' ps ov)) = attempted w' @ map (command_for pl e ov) (take k ps)"
      by blast
    with j a Returned have "attempted (snd (run_each pl e w (p # ps) ov)) =
        attempted w @ map (command_for pl e ov) (take (Suc k) (p # ps))"
      by (simp add: run_each_Cons)
    with k(1) show ?thesis by (intro exI [of _ "Suc k"]) simp
  qed
qed

lemma console_run_each: "prefix (console w) (console (snd (run_each pl e w ps ov)))"
proof (induction ps arbitrary: w)
  case Nil
  then show ?case by (simp add: run_each_Nil)
next
  case (Cons p ps)
  obtain c w' where j: "run_job pl e w p ov = (c, w')" by (cases "run_job pl e w p ov")
  have p1: "prefix (console w) (console w')"
    using console_run_job [of w pl e p ov] j by simp
  show ?case
  proof (cases "c = Returned")
    case False
    with j p1 show ?thesis by (cases c) (simp_all add: run_each_Cons)
  next
    case Returned: True
    have "prefix (console w') (console (snd (run_each pl e w' ps ov)))" by (rule Cons.IH)
    with p1 have "prefix (console w) (console (snd (run_each pl e w' ps ov)))"
      by (rule prefix_order.trans)
    with j Returned show ?thesis by (simp add: run_each_Cons)
  qed
qed

lemma run_each_returns:
  assumes "tool_completes e"
  shows "fst (run_each pl e w ps ov) = Returned"
proof (induction ps arbitrary: w)
  case Nil
  then show ?case by (simp add: run_each_Nil)
next
  case (Cons p ps)
  obtain c w' where j: "run_job pl e w p ov = (c, w')" by (cases "run_job pl e w p ov")
  with run_job_returns [OF assms, of pl w p ov] have "c = Returned" by simp
  with j Cons.IH [of w'] show ?case by (simp add: run_each_Cons)
qed

subsection \<open>The pipeline as a whole\<close>

lemma files_before_scan [simp]: "files (before_scan pl w root kw ov) = files w"
  by (simp add: before_scan_def print_def Let_def)

lemma attempted_before_scan [simp]: "attempted (before_scan pl w root kw ov) = attempted w"
  by (simp add: before_scan_def print_def Let_def)

lemma files_before_loop [simp]: "files (before_loop pl w root kw ov n) = files w"
  by (simp add: before_loop_def print_def)

lemma attempted_before_loop [simp]: "attempted (before_loop pl w root kw ov n) = attempted w"
  by (simp add: before_loop_def print_def)

lemma run_pipeline_no_directory:
  "\<not> isdir e (files w) root \<Longrightarrow>
     run_pipeline pl e w root kw ov =
       (Returned, print w (''Error: Directory '' @ [CHR 0x27] @ root @ [CHR 0x27] @ '' not found.''))"
  by (cases pl) (simp_all add: run_pipeline_def find_and_crop_videos_def find_and_process_videos_def)

lemma run_pipeline_no_candidates:
  "isdir e (files w) root \<Longrightarrow> scan pl kw ov (walk e (files w) root) = [] \<Longrightarrow>
     run_pipeline pl e w root kw ov =
       (Returned, print (before_scan pl w root kw ov)
          (case pl of Crop \<Rightarrow> ''No matching video files found to crop.''
           | Transform \<Rightarrow> ''No matching video files found.''))"
  by (cases pl; cases ov)
     (simp_all add: run_pipeline_def find_and_crop_videos_def find_and_process_videos_def
        scan_def before_scan_def start_message_def print_def Let_def)

lemma run_pipeline_loop:
  "isdir e (files w) root \<Longrightarrow> scan pl kw ov (walk e (files w) root) \<noteq> [] \<Longrightarrow>
     run_pipeline pl e w root kw ov =
       (case run_each pl e
               (before_loop pl w root kw ov (length (scan pl kw ov (walk e (files w) root))))
               (scan pl kw ov (walk e (files w) root)) ov of
          (SystemExit, w4) \<Rightarrow> (SystemExit, w4)
        | (Uncaught, w4) \<Rightarrow> (Uncaught, w4)
        | (Returned, w4) \<Rightarrow> (Returned, print w4 (CHR 0x0A # ''Processing complete.'')))"
  by (cases pl; cases ov)
     (simp_all add: run_pipeline_def find_and_crop_videos_def find_and_process_videos_def
        scan_def before_scan_def before_loop_def start_message_def print_def Let_def run_each_def)

section \<open>A failed job in overwrite mode\<close>

lemma example_env_completes: "tool_completes example_env"
  by (simp add: tool_completes_def example_env_def)

lemma example_answer_b:
  "tool_answer pl example_env w ''/r/b.mp4'' ov = Completed 1 ''boom'' (Some ''partial'')"
  by (simp add: tool_answer_def example_env_def input_of_command_for)

lemma example_undecodable_answer_b:
  "tool_answer pl example_env_undecodable w ''/r/b.mp4'' ov = Undecodable 1 (Some ''partial'')"
  by (simp add: tool_answer_def example_env_undecodable_def example_env_def input_of_command_for)

lemma example_undecodable_answer_a:
  "tool_answer pl example_env_undecodable w ''/r/a.mp4'' ov = Completed 0 [] (Some ''video'')"
  by (simp add: tool_answer_def example_env_undecodable_def example_env_def input_of_command_for)

text \<open>
  When \<open>subprocess.run\<close> reports the non-zero return code (\<open>CalledProcessError\<close>), the
  job in OVERWRITE mode returns normally, the source path holds what it held before, no
  file is left at the temporary path, and the console shows the error lines.
\<close>

lemma reported_failure_keeps_source_and_removes_temp:
  assumes "tool_answer pl e w p True = Completed rc err out" and "rc \<noteq> 0"
  shows "fst (run_job pl e w p True) = Returned \<and>
         last (command_for pl e True p) = temp_path pl e p \<and>
         files (snd (run_job pl e w p True)) p = files w p \<and>
         files (snd (run_job pl e w p True)) (temp_path pl e p) = None \<and>
         files (snd (run_job pl e w p True)) = (files w)(temp_path pl e p := None) \<and>
         console (snd (run_job pl e w p True)) =
           console w @ [''Processing: '' @ p, ''ERROR processing '' @ p @ '':'',
                        ''  Return code: '' @ str_int rc, ''  Stderr: '' @ err]"
  using run_job_failed [OF assms] temp_path_ne_source [of pl e p]
  by (simp add: last_command_for temp_path_def)

text \<open>
  Claim C3 fails on the code at this input: an OVERWRITE-mode job for \<open>/r/b.mp4\<close> whose
  external command leaves a partial file at the temporary path and ends with return
  code 1 and an error stream that is not valid text. \<open>subprocess.run\<close> then raises
  \<open>UnicodeDecodeError\<close>, which neither \<open>except\<close> clause catches: the exception leaves
  the job, the console shows nothing but the line printed before the run, and the
  partial file stays at the temporary path. The source file is untouched.
\<close>

theorem undecodable_failure_leaves_temp_file_and_reports_nothing:
  "tool_answer Crop example_env_undecodable example_world ''/r/b.mp4'' True =
     Undecodable 1 (Some ''partial'') \<and>
   fst (run_job Crop example_env_undecodable example_world ''/r/b.mp4'' True) = Uncaught \<and>
   console (snd (run_job Crop example_env_undecodable example_world ''/r/b.mp4'' True)) =
     [''Processing: /r/b.mp4''] \<and>
   temp_path Crop example_env_undecodable ''/r/b.mp4'' = ''/tmp/temp_crop_b.mp4'' \<and>
   files (snd (run_job Crop example_env_undecodable example_world ''/r/b.mp4'' True))
     ''/tmp/temp_crop_b.mp4'' = Some ''partial'' \<and>
   files (snd (run_job Crop example_env_undecodable example_world ''/r/b.mp4'' True))
     ''/r/b.mp4'' = Some ''B''"
proof -
  note a = example_undecodable_answer_b [of Crop example_world True]
  have t: "temp_path Crop example_env_undecodable ''/r/b.mp4'' = ''/tmp/temp_crop_b.mp4''"
    by (simp add: temp_path_eq example_env_undecodable_def example_env_def temp_prefix_def
          path_join_def basename_def endswith_def)
  have c: "console (snd (run_job Crop example_env_undecodable example_world ''/r/b.mp4'' True)) =
     [''Processing: /r/b.mp4'']"
    unfolding run_job_undecodable(3) [OF a] by (simp add: example_world_def)
  have f: "files (snd (run_job Crop example_env_undecodable example_world ''/r/b.mp4'' True)) =
     (files example_world)(''/tmp/temp_crop_b.mp4'' \<mapsto> ''partial'')"
    using run_job_undecodable(4) [OF a] t by (simp add: temp_path_def)
  have f1: "files (snd (run_job Crop example_env_undecodable example_world ''/r/b.mp4'' True))
     ''/tmp/temp_crop_b.mp4'' = Some ''partial''"
    unfolding f by simp
  have f2: "files (snd (run_job Crop example_env_undecodable example_world ''/r/b.mp4'' True))
     ''/r/b.mp4'' = Some ''B''"
    unfolding f by (simp add: example_world_def)
  from a run_job_undecodable(1) [OF a] c t f1 f2 show ?thesis by blast
qed

section \<open>The temporary file of overwrite mode\<close>

text \<open>
  Claim C2 as stated fails: the temporary path is not unique to the source file. Two
  distinct source files of one batch, in different directories but with the same
  filename, are given the same temporary path.
\<close>

theorem temp_path_shared_by_equal_basenames_counterexample:
  "''/r/a/x.mp4'' \<noteq> ''/r/b/x.mp4'' \<and>
   scan Crop ''motion'' True example_tree_equal_names = [''/r/a/x.mp4'', ''/r/b/x.mp4''] \<and>
   temp_path Crop example_env ''/r/a/x.mp4'' = temp_path Crop example_env ''/r/b/x.mp4''"
proof -
  have "scan Crop ''motion'' True example_tree_equal_names = [''/r/a/x.mp4'', ''/r/b/x.mp4'']"
    by code_simp
  moreover have "basename ''/r/a/x.mp4'' = basename ''/r/b/x.mp4''" by code_simp
  then have "temp_path Crop example_env ''/r/a/x.mp4'' = temp_path Crop example_env ''/r/b/x.mp4''"
    by (simp only: temp_path_eq_iff)
  ultimately show ?thesis by simp
qed

text \<open>
  Claim C2, amended. In OVERWRITE mode the external command writes to the temporary
  path: the scratch directory joined with the prefix of the pipeline (\<open>temp_crop_\<close>
  or \<open>temp_\<close>) followed by the basename of the source. This path is never the source
  path, and two sources get the same temporary path exactly when their basenames are
  equal. When \<open>subprocess.run\<close> completes (the process ran to its end and its captured
  streams were decoded), the file system is as follows: after return code 0 the content
  found at the temporary path has been moved onto the source path (nothing changes when
  there is no file to move); after any other return code the temporary file is gone and
  the source path is as before.
\<close>

theorem overwrite_output_goes_through_temp_file:
  assumes "tool_answer pl e w p True = Completed rc err out"
  shows "last (command_for pl e True p) = temp_path pl e p \<and>
         temp_path pl e p = path_join (gettempdir e) (temp_prefix pl @ basename p) \<and>
         basename (temp_path pl e p) = temp_prefix pl @ basename p \<and>
         temp_path pl e p \<noteq> p \<and>
         (temp_path pl e q = temp_path pl e p) = (basename q = basename p) \<and>
         files (snd (run_job pl e w p True)) =
           (if rc = 0
            then (case (case out of None \<Rightarrow> files w (temp_path pl e p) | Some c \<Rightarrow> Some c) of
                    None \<Rightarrow> files w
                  | Some c \<Rightarrow> ((files w)(temp_path pl e p := None))(p \<mapsto> c))
            else (files w)(temp_path pl e p := None))"
proof -
  have f: "files (snd (run_job pl e w p True)) =
           (if rc = 0
            then (case (case out of None \<Rightarrow> files w (temp_path pl e p) | Some c \<Rightarrow> Some c) of
                    None \<Rightarrow> files w
                  | Some c \<Rightarrow> ((files w)(temp_path pl e p := None))(p \<mapsto> c))
            else (files w)(temp_path pl e p := None))"
  proof (cases "rc = 0")
    case False
    with assms show ?thesis by (simp add: run_job_failed(4))
  next
    case True
    show ?thesis
    proof (cases "case out of None \<Rightarrow> files w (temp_path pl e p) | Some c \<Rightarrow> Some c")
      case None
      with True assms run_job_succeeded_overwrite(1) [of pl e w p err out]
      show ?thesis by simp
    next
      case (Some c)
      with True assms run_job_succeeded_overwrite(2) [of pl e w p err out c]
      show ?thesis by simp
    qed
  qed
  show ?thesis
    using f temp_path_ne_source [of pl e p]
    by (simp only: last_command_for temp_path_def [symmetric] temp_path_eq [symmetric]
          basename_temp_path temp_path_eq_iff simp_thms)
qed

theorem overwrite_output_goes_through_temp_file_witness:
  "tool_answer Crop example_env example_world ''/r/a.mp4'' True = Completed 0 [] (Some ''video'') \<and>
   temp_path Crop example_env ''/r/a.mp4'' = ''/tmp/temp_crop_a.mp4'' \<and>
   last (command_for Crop example_env True ''/r/a.mp4'') = ''/tmp/temp_crop_a.mp4'' \<and>
   files (snd (run_job Crop example_env example_world ''/r/a.mp4'' True)) =
     ((files example_world)(''/tmp/temp_crop_a.mp4'' := None))(''/r/a.mp4'' \<mapsto> ''video'')"
proof -
  have a: "tool_answer Crop example_env example_world ''/r/a.mp4'' True = Completed 0 [] (Some ''video'')"
    by (simp add: tool_answer_def example_env_def input_of_command_for)
  have t: "temp_path Crop example_env ''/r/a.mp4'' = ''/tmp/temp_crop_a.mp4''"
    by (simp add: temp_path_eq example_env_def temp_prefix_def path_join_def basename_def endswith_def)
  from overwrite_output_goes_through_temp_file [OF a]
  have "last (command_for Crop example_env True ''/r/a.mp4'') = temp_path Crop example_env ''/r/a.mp4''"
    and "files (snd (run_job Crop example_env example_world ''/r/a.mp4'' True)) =
           ((files example_world)(temp_path Crop example_env ''/r/a.mp4'' := None))(''/r/a.mp4'' \<mapsto> ''video'')"
    by simp_all
  with a t show ?thesis by simp
qed

section \<open>Failures and the batch\<close>

lemma example_tool_lost_answer_b:
  "tool_answer pl example_env_tool_lost w ''/r/b.mp4'' ov = NotFound"
  by (simp add: tool_answer_def example_env_tool_lost_def example_env_def input_of_command_for)

lemma console_stderr_run_job:
  assumes "tool_answer pl e w p ov = Completed rc err out" "rc \<noteq> 0"
  shows "(''  Stderr: '' @ err) \<in> set (console (snd (run_job pl e w p ov)))"
  by (simp add: run_job_failed(3) [OF assms])

text \<open>
  When every run of the external tool completes, a non-zero return code on one job does
  not stop the batch: the job returns, its error stream is on the console at the end,
  and one command has been issued for every path of the batch, in order.
\<close>

lemma reported_failure_does_not_stop_the_batch:
  assumes "tool_completes e"
    and "tool_answer pl e (snd (run_each pl e w before ov)) p ov = Completed rc err out"
    and "rc \<noteq> 0"
  shows "fst (run_job pl e (snd (run_each pl e w before ov)) p ov) = Returned \<and>
         (''  Stderr: '' @ err) \<in> set (console (snd (run_each pl e w (before @ p # rest) ov))) \<and>
         fst (run_each pl e w (before @ p # rest) ov) = Returned \<and>
         attempted (snd (run_each pl e w (before @ p # rest) ov)) =
           attempted w @ map (command_for pl e ov) (before @ p # rest)"
proof -
  let ?w1 = "snd (run_each pl e w before ov)"
  let ?w2 = "snd (run_job pl e ?w1 p ov)"
  have r1: "fst (run_each pl e w before ov) = Returned"
    by (rule run_each_returns [OF assms(1)])
  have r2: "fst (run_job pl e ?w1 p ov) = Returned"
    by (rule run_job_failed(1) [OF assms(2,3)])
  have split: "run_each pl e w (before @ p # rest) ov = run_each pl e ?w2 rest ov"
    using r1 r2
    by (cases "run_each pl e w before ov"; cases "run_job pl e ?w1 p ov")
       (simp add: run_each_append run_each_Cons)
  have "(''  Stderr: '' @ err) \<in> set (console ?w2)"
    by (rule console_stderr_run_job [OF assms(2,3)])
  moreover have "set (console ?w2) \<subseteq> set (console (snd (run_each pl e ?w2 rest ov)))"
    using console_run_each [of ?w2 pl e rest ov] by (rule set_mono_prefix)
  ultimately have c: "(''  Stderr: '' @ err) \<in> set (console (snd (run_each pl e w (before @ p # rest) ov)))"
    unfolding split by blast
  have r3: "fst (run_each pl e w (before @ p # rest) ov) = Returned"
    by (rule run_each_returns [OF assms(1)])
  from r3 have "attempted (snd (run_each pl e w (before @ p # rest) ov)) =
           attempted w @ map (command_for pl e ov) (before @ p # rest)"
    by (rule attempted_run_each_returned)
  with r2 c r3 show ?thesis by blast
qed

text \<open>A job that does not return ends the loop: no later path gets a command.\<close>

lemma run_each_stops:
  assumes "fst (run_each pl e w before ov) = Returned"
    and "fst (run_job pl e (snd (run_each pl e w before ov)) p ov) \<noteq> Returned"
  shows "run_each pl e w (before @ p # rest) ov =
           run_job pl e (snd (run_each pl e w before ov)) p ov"
proof -
  obtain w1 where b: "run_each pl e w before ov = (Returned, w1)"
    using assms(1) by (cases "run_each pl e w before ov") simp
  obtain c w2 where j: "run_job pl e w1 p ov = (c, w2)" by (cases "run_job pl e w1 p ov")
  with assms(2) b have "c \<noteq> Returned" by simp
  with b j show ?thesis by (cases c) (simp_all add: run_each_append run_each_Cons)
qed

lemma example_undecodable_first_job:
  "fst (run_each Crop example_env_undecodable w [''/r/a.mp4''] True) = Returned"
proof -
  have a: "tool_answer Crop example_env_undecodable w ''/r/a.mp4'' True =
             Completed 0 [] (Some ''video'')"
    by (rule example_undecodable_answer_a)
  have "fst (run_job Crop example_env_undecodable w ''/r/a.mp4'' True) = Returned"
    using run_job_succeeded_overwrite(2) [OF a, of "''video''"] by simp
  then show ?thesis
    by (cases "run_job Crop example_env_undecodable w ''/r/a.mp4'' True")
       (simp add: run_each_Cons run_each_Nil)
qed

text \<open>
  Claim C4 fails on the code at this input: an OVERWRITE-mode batch of three files in
  which the external tool, on the second file, ends with return code 1 and an error
  stream that is not valid text. The \<open>UnicodeDecodeError\<close> raised by \<open>subprocess.run\<close>
  is not caught, so it leaves the job, the processing loop and the pipeline: commands
  have been issued for the first and the second file only, none for the third.
\<close>

theorem undecodable_failure_stops_the_batch:
  "scan Crop ''motion'' True (walk example_env_undecodable (files example_world) ''/r'') =
     [''/r/a.mp4''] @ ''/r/b.mp4'' # [''/r/c.mp4''] \<and>
   tool_answer Crop example_env_undecodable
     (snd (run_each Crop example_env_undecodable example_world [''/r/a.mp4''] True))
     ''/r/b.mp4'' True = Undecodable 1 (Some ''partial'') \<and>
   fst (run_each Crop example_env_undecodable example_world
          ([''/r/a.mp4''] @ ''/r/b.mp4'' # [''/r/c.mp4'']) True) = Uncaught \<and>
   map (\<lambda>command. command ! 3)
     (attempted (snd (run_each Crop example_env_undecodable example_world
        ([''/r/a.mp4''] @ ''/r/b.mp4'' # [''/r/c.mp4'']) True))) = [''/r/a.mp4'', ''/r/b.mp4''] \<and>
   fst (run_pipeline Crop example_env_undecodable example_world ''/r'' ''motion'' True) = Uncaught \<and>
   map (\<lambda>command. command ! 3)
     (attempted (snd (run_pipeline Crop example_env_undecodable example_world ''/r'' ''motion'' True))) =
     [''/r/a.mp4'', ''/r/b.mp4'']"
proof -
  let ?e = example_env_undecodable
  let ?l = "[''/r/a.mp4''] @ ''/r/b.mp4'' # [''/r/c.mp4'']"
  have "scan Crop ''motion'' True [(''/r'', [], [''a.mp4'', ''b.mp4'', ''c.mp4''])] =
          [''/r/a.mp4'', ''/r/b.mp4'', ''/r/c.mp4'']" by code_simp
  then have s: "scan Crop ''motion'' True (walk ?e (files example_world) ''/r'') = ?l"
    by (simp add: example_env_undecodable_def example_env_def)
  have loop: "fst (run_each Crop ?e w ?l True) = Uncaught \<and>
      attempted (snd (run_each Crop ?e w ?l True)) =
        attempted w @ map (command_for Crop ?e True) [''/r/a.mp4'', ''/r/b.mp4'']" for w
  proof -
    let ?w1 = "snd (run_each Crop ?e w [''/r/a.mp4''] True)"
    note b = example_undecodable_answer_b [of Crop ?w1 True]
    have r: "fst (run_each Crop ?e w [''/r/a.mp4''] True) = Returned"
      by (rule example_undecodable_first_job)
    have "fst (run_job Crop ?e ?w1 ''/r/b.mp4'' True) \<noteq> Returned"
      by (simp add: run_job_undecodable(1) [OF b])
    with r have "run_each Crop ?e w ?l True = run_job Crop ?e ?w1 ''/r/b.mp4'' True"
      by (rule run_each_stops)
    then show ?thesis
      using run_job_undecodable(1,2) [OF b] attempted_run_each_returned [OF r] by simp
  qed
  have d: "isdir ?e (files example_world) ''/r''"
    by (simp add: example_env_undecodable_def example_env_def)
  have ne: "scan Crop ''motion'' True (walk ?e (files example_world) ''/r'') \<noteq> []"
    by (simp add: s)
  let ?w0 = "before_loop Crop example_world ''/r'' ''motion'' True (length ?l)"
  have pipe: "fst (run_pipeline Crop ?e example_world ''/r'' ''motion'' True) = Uncaught \<and>
      attempted (snd (run_pipeline Crop ?e example_world ''/r'' ''motion'' True)) =
        attempted (snd (run_each Crop ?e ?w0 ?l True))"
    using run_pipeline_loop [OF d ne] loop [of ?w0]
    by (cases "run_each Crop ?e ?w0 ?l True") (simp add: s)
  have m: "map (\<lambda>command. command ! 3)
      (attempted w @ map (command_for Crop ?e True) [''/r/a.mp4'', ''/r/b.mp4'']) =
      [''/r/a.mp4'', ''/r/b.mp4'']" if "attempted w = []" for w
    using that by (simp add: input_of_command_for)
  have m1: "map (\<lambda>command. command ! 3) (attempted (snd (run_each Crop ?e example_world ?l True))) =
      [''/r/a.mp4'', ''/r/b.mp4'']"
    using loop [of example_world] m [of example_world] by (simp add: example_world_def)
  have m2: "map (\<lambda>command. command ! 3)
      (attempted (snd (run_pipeline Crop ?e example_world ''/r'' ''motion'' True))) =
      [''/r/a.mp4'', ''/r/b.mp4'']"
    using pipe loop [of ?w0] m [of ?w0] by (simp add: example_world_def)
  from s example_undecodable_answer_b [of Crop _ True] loop [of example_world] m1 pipe m2
  show ?thesis by blast
qed

text \<open>
  Claim C5. Let the root be a directory and let the collected list be
  \<open>before @ p # rest\<close>, where the jobs of \<open>before\<close> return and the binary is not
  found when the job for \<open>p\<close> is started. Then the processing loop and the whole
  pipeline end with \<open>SystemExit\<close>; commands have been issued for the paths of
  \<open>before\<close> and for \<open>p\<close> only, none for \<open>rest\<close>; the file system is as the jobs
  of \<open>before\<close> left it; and the last console line is the message that ffmpeg was not
  found (no completion message follows).
\<close>

theorem missing_tool_aborts_the_batch:
  assumes "isdir e (files w) root"
    and "scan pl kw ov (walk e (files w) root) = before @ p # rest"
    and "fst (run_each pl e (before_loop pl w root kw ov (length (before @ p # rest))) before ov) = Returned"
    and "tool_answer pl e
           (snd (run_each pl e (before_loop pl w root kw ov (length (before @ p # rest))) before ov))
           p ov = NotFound"
  shows "fst (run_each pl e (before_loop pl w root kw ov (length (before @ p # rest)))
                (before @ p # rest) ov) = SystemExit \<and>
         fst (run_pipeline pl e w root kw ov) = SystemExit \<and>
         attempted (snd (run_pipeline pl e w root kw ov)) =
           attempted w @ map (command_for pl e ov) (before @ [p]) \<and>
         files (snd (run_pipeline pl e w root kw ov)) =
           files (snd (run_each pl e (before_loop pl w root kw ov (length (before @ p # rest))) before ov)) \<and>
         last (console (snd (run_pipeline pl e w root kw ov))) = ffmpeg_not_found_msg"
proof -
  let ?w0 = "before_loop pl w root kw ov (length (before @ p # rest))"
  let ?w1 = "snd (run_each pl e ?w0 before ov)"
  let ?w2 = "?w1\<lparr>console := console ?w1 @ [''Processing: '' @ p, ffmpeg_not_found_msg],
                  attempted := attempted ?w1 @ [command_for pl e ov p]\<rparr>"
  have j: "run_job pl e ?w1 p ov = (SystemExit, ?w2)"
    by (rule run_job_not_found [OF assms(4)])
  have loop: "run_each pl e ?w0 (before @ p # rest) ov = (SystemExit, ?w2)"
    using assms(3) j
    by (cases "run_each pl e ?w0 before ov") (simp add: run_each_append run_each_Cons)
  have ne: "scan pl kw ov (walk e (files w) root) \<noteq> []"
    using assms(2) by simp
  have pipe: "run_pipeline pl e w root kw ov = (SystemExit, ?w2)"
    using run_pipeline_loop [OF assms(1) ne] loop by (simp add: assms(2))
  have a1: "attempted ?w1 = attempted w @ map (command_for pl e ov) before"
    using attempted_run_each_returned [OF assms(3)] by simp
  show ?thesis
    using loop pipe a1 by simp
qed

lemma example_scan:
  "scan Crop ''motion'' False (walk example_env_tool_lost (files example_world) ''/r'') =
     [''/r/a.mp4''] @ ''/r/b.mp4'' # [''/r/c.mp4'']"
proof -
  have "scan Crop ''motion'' False [(''/r'', [], [''a.mp4'', ''b.mp4'', ''c.mp4''])] =
          [''/r/a.mp4'', ''/r/b.mp4'', ''/r/c.mp4'']" by code_simp
  then show ?thesis by (simp add: example_env_tool_lost_def example_env_def)
qed

lemma example_tool_lost_first_job:
  "fst (run_each Crop example_env_tool_lost w [''/r/a.mp4''] False) = Returned"
proof -
  have "tool_answer Crop example_env_tool_lost w ''/r/a.mp4'' False = Completed 0 [] (Some ''video'')"
    by (simp add: tool_answer_def example_env_tool_lost_def example_env_def input_of_command_for)
  then have "fst (run_job Crop example_env_tool_lost w ''/r/a.mp4'' False) = Returned"
    by (rule run_job_succeeded_copy(1))
  then show ?thesis
    by (cases "run_job Crop example_env_tool_lost w ''/r/a.mp4'' False")
       (simp add: run_each_Cons run_each_Nil)
qed

theorem missing_tool_aborts_the_batch_witness:
  "isdir example_env_tool_lost (files example_world) ''/r'' \<and>
   scan Crop ''motion'' False (walk example_env_tool_lost (files example_world) ''/r'') =
     [''/r/a.mp4''] @ ''/r/b.mp4'' # [''/r/c.mp4''] \<and>
   fst (run_pipeline Crop example_env_tool_lost example_world ''/r'' ''motion'' False) = SystemExit \<and>
   map (\<lambda>command. command ! 3)
     (attempted (snd (run_pipeline Crop example_env_tool_lost example_world ''/r'' ''motion'' False))) =
     [''/r/a.mp4'', ''/r/b.mp4'']"
proof -
  have d: "isdir example_env_tool_lost (files example_world) ''/r''"
    by (simp add: example_env_tool_lost_def example_env_def)
  note s = example_scan
  from missing_tool_aborts_the_batch [OF d s example_tool_lost_first_job example_tool_lost_answer_b]
  have x: "fst (run_pipeline Crop example_env_tool_lost example_world ''/r'' ''motion'' False) = SystemExit"
    and at: "attempted (snd (run_pipeline Crop example_env_tool_lost example_world ''/r'' ''motion'' False)) =
       attempted example_world @ map (command_for Crop example_env_tool_lost False) ([''/r/a.mp4''] @ [''/r/b.mp4''])"
    by blast+
  have "map (\<lambda>command. command ! 3)
     (attempted (snd (run_pipeline Crop example_env_tool_lost example_world ''/r'' ''motion'' False))) =
     [''/r/a.mp4'', ''/r/b.mp4'']"
    unfolding at by (simp add: example_world_def input_of_command_for)
  with d s x show ?thesis by (simp only: simp_thms)
qed

section \<open>A root that is not a directory\<close>

text \<open>
  Claim C8. If the root path is not an existing directory, either pipeline prints the
  error line and returns: the file system is unchanged, no external process has been
  started, and the result does not depend on what a walk or the external tool would
  have done (neither is consulted).
\<close>

theorem missing_root_directory_returns_without_effects:
  assumes "\<not> isdir e (files w) root"
  shows "run_pipeline pl e w root kw ov =
           (Returned, print w (''Error: Directory '' @ [CHR 0x27] @ root @ [CHR 0x27] @ '' not found.'')) \<and>
         files (snd (run_pipeline pl e w root kw ov)) = files w \<and>
         attempted (snd (run_pipeline pl e w root kw ov)) = attempted w \<and>
         run_pipeline pl (e\<lparr>walk := any_walk, ffmpeg := any_tool\<rparr>) w root kw ov =
           run_pipeline pl e w root kw ov"
proof -
  have "\<not> isdir (e\<lparr>walk := any_walk, ffmpeg := any_tool\<rparr>) (files w) root"
    using assms by simp
  then show ?thesis
    using assms by (simp add: run_pipeline_no_directory print_def)
qed

theorem missing_root_directory_returns_without_effects_witness:
  "\<not> isdir example_env (files example_world) ''/nowhere'' \<and>
   fst (run_pipeline Crop example_env example_world ''/nowhere'' ''motion'' True) = Returned \<and>
   files (snd (run_pipeline Crop example_env example_world ''/nowhere'' ''motion'' True)) =
     files example_world \<and>
   attempted (snd (run_pipeline Crop example_env example_world ''/nowhere'' ''motion'' True)) = []"
proof -
  have d: "\<not> isdir example_env (files example_world) ''/nowhere''"
    by (simp add: example_env_def)
  from missing_root_directory_returns_without_effects
         [OF d, where pl = Crop and kw = "''motion''" and ov = True
            and any_walk = "walk example_env" and any_tool = "ffmpeg example_env"]
  have "fst (run_pipeline Crop example_env example_world ''/nowhere'' ''motion'' True) = Returned"
    and "files (snd (run_pipeline Crop example_env example_world ''/nowhere'' ''motion'' True)) =
           files example_world"
    and "attempted (snd (run_pipeline Crop example_env example_world ''/nowhere'' ''motion'' True)) =
           attempted example_world"
    by (simp_all add: print_def)
  with d show ?thesis by (simp add: example_world_def)
qed

section \<open>The candidate list and the jobs of one run\<close>

lemma attempted_print [simp]: "attempted (print w s) = attempted w"
  by (simp add: print_def)

lemma files_print [simp]: "files (print w s) = files w"
  by (simp add: print_def)

lemma attempted_run_pipeline:
  "\<exists>k\<le>length (scan pl kw ov (walk e (files w) root)).
      attempted (snd (run_pipeline pl e w root kw ov)) =
        attempted w @ map (command_for pl e ov) (take k (scan pl kw ov (walk e (files w) root)))"
proof (cases "isdir e (files w) root")
  case False
  then show ?thesis by (intro exI [of _ 0]) (simp add: run_pipeline_no_directory)
next
  case True
  let ?c = "scan pl kw ov (walk e (files w) root)"
  show ?thesis
  proof (cases "?c = []")
    case True
    with \<open>isdir e (files w) root\<close> show ?thesis
      by (intro exI [of _ 0]) (simp add: run_pipeline_no_candidates)
  next
    case False
    let ?w0 = "before_loop pl w root kw ov (length ?c)"
    obtain k where k: "k \<le> length ?c"
      "attempted (snd (run_each pl e ?w0 ?c ov)) = attempted ?w0 @ map (command_for pl e ov) (take k ?c)"
      using attempted_run_each_prefix [of ?c pl e ?w0 ov] by blast
    have "attempted (snd (run_pipeline pl e w root kw ov)) = attempted (snd (run_each pl e ?w0 ?c ov))"
      using run_pipeline_loop [OF True False]
      by (cases "run_each pl e ?w0 ?c ov"; cases "fst (run_each pl e ?w0 ?c ov)") simp_all
    with k show ?thesis by (intro exI [of _ k]) simp
  qed
qed

lemma attempted_run_pipeline_available:
  assumes "tool_completes e" "isdir e (files w) root"
  shows "attempted (snd (run_pipeline pl e w root kw ov)) =
           attempted w @ map (command_for pl e ov) (scan pl kw ov (walk e (files w) root))"
proof (cases "scan pl kw ov (walk e (files w) root) = []")
  case True
  with assms(2) show ?thesis by (simp add: run_pipeline_no_candidates)
next
  case False
  let ?c = "scan pl kw ov (walk e (files w) root)"
  let ?w0 = "before_loop pl w root kw ov (length ?c)"
  have r: "fst (run_each pl e ?w0 ?c ov) = Returned"
    by (rule run_each_returns [OF assms(1)])
  then have "attempted (snd (run_each pl e ?w0 ?c ov)) = attempted ?w0 @ map (command_for pl e ov) ?c"
    by (rule attempted_run_each_returned)
  moreover have "attempted (snd (run_pipeline pl e w root kw ov)) = attempted (snd (run_each pl e ?w0 ?c ov))"
    using run_pipeline_loop [OF assms(2) False] r
    by (cases "run_each pl e ?w0 ?c ov") simp
  ultimately show ?thesis by simp
qed

text \<open>
  Claim C9. The candidate list is computed once, from the file system as it is when the
  pipeline is called. Whatever the external tool does and whatever files it creates,
  the commands issued by one run are, in order, the commands for an initial segment of
  that list; so the input path of every command issued is a path collected from, and
  listed by, the walk of the initial file system, and a file that exists only because
  of the current run gets no command in this run.
\<close>

theorem candidates_are_fixed_before_the_first_job:
  "prefix (attempted w) (attempted (snd (run_pipeline pl e w root kw ov))) \<and>
   prefix (attempted (snd (run_pipeline pl e w root kw ov)))
     (attempted w @ map (command_for pl e ov) (scan pl kw ov (walk e (files w) root))) \<and>
   (\<forall>command \<in> set (drop (length (attempted w)) (attempted (snd (run_pipeline pl e w root kw ov)))).
      command ! 3 \<in> set (scan pl kw ov (walk e (files w) root)) \<and>
      command ! 3 \<in> set (listed_paths (walk e (files w) root)))"
proof -
  let ?c = "scan pl kw ov (walk e (files w) root)"
  obtain k where k: "attempted (snd (run_pipeline pl e w root kw ov)) =
        attempted w @ map (command_for pl e ov) (take k ?c)"
    using attempted_run_pipeline [of pl kw ov e w root] by blast
  have p1: "prefix (attempted w) (attempted (snd (run_pipeline pl e w root kw ov)))"
    unfolding k by simp
  have "prefix (map (command_for pl e ov) (take k ?c)) (map (command_for pl e ov) ?c)"
    by (rule map_mono_prefix) (rule take_is_prefix)
  then have p2: "prefix (attempted (snd (run_pipeline pl e w root kw ov)))
     (attempted w @ map (command_for pl e ov) ?c)"
    unfolding k by simp
  have sub: "set ?c \<subseteq> set (listed_paths (walk e (files w) root))"
    by (simp add: scan_eq_spec_scan set_spec_scan_subset)
  have p3: "\<forall>command \<in> set (drop (length (attempted w)) (attempted (snd (run_pipeline pl e w root kw ov)))).
      command ! 3 \<in> set ?c \<and> command ! 3 \<in> set (listed_paths (walk e (files w) root))"
  proof
    fix command
    assume "command \<in> set (drop (length (attempted w)) (attempted (snd (run_pipeline pl e w root kw ov))))"
    then have "command \<in> set (map (command_for pl e ov) (take k ?c))"
      unfolding k by simp
    then obtain p where p: "p \<in> set (take k ?c)" "command = command_for pl e ov p" by auto
    from p(1) have "p \<in> set ?c" by (rule in_set_takeD)
    with sub p(2) show "command ! 3 \<in> set ?c \<and> command ! 3 \<in> set (listed_paths (walk e (files w) root))"
      by (auto simp: input_of_command_for)
  qed
  from p1 p2 p3 show ?thesis by blast
qed

theorem candidates_are_fixed_before_the_first_job_witness:
  "command_for Crop example_env False ''/r/a.mp4'' \<in>
     set (drop (length (attempted example_world))
           (attempted (snd (run_pipeline Crop example_env example_world ''/r'' ''motion'' False)))) \<and>
   command_for Crop example_env False ''/r/a.mp4'' ! 3 \<in>
     set (listed_paths (walk example_env (files example_world) ''/r''))"
proof -
  have d: "isdir example_env (files example_world) ''/r''" by (simp add: example_env_def)
  have "scan Crop ''motion'' False [(''/r'', [], [''a.mp4'', ''b.mp4'', ''c.mp4''])] =
          [''/r/a.mp4'', ''/r/b.mp4'', ''/r/c.mp4'']" by code_simp
  then have s: "scan Crop ''motion'' False (walk example_env (files example_world) ''/r'') =
          [''/r/a.mp4'', ''/r/b.mp4'', ''/r/c.mp4'']" by (simp add: example_env_def)
  have m: "command_for Crop example_env False ''/r/a.mp4'' \<in>
     set (drop (length (attempted example_world))
           (attempted (snd (run_pipeline Crop example_env example_world ''/r'' ''motion'' False))))"
    by (simp add: attempted_run_pipeline_available [OF example_env_completes d] s)
  with candidates_are_fixed_before_the_first_job
         [of example_world Crop example_env "''/r''" "''motion''" False]
  show ?thesis by blast
qed

section \<open>The empty keyword\<close>






section \<open>Running the COPY pipeline a second time\<close>

lemma of_char_lower_char:
  "(of_char (lower_char c) :: nat) =
     (if 65 \<le> (of_char c :: nat) \<and> (of_char c :: nat) \<le> 90 then of_char c + 32 else of_char c)"
  by (auto simp: lower_char_def)

lemma lower_char_eq_dot: "lower_char c = CHR ''.'' \<longleftrightarrow> c = CHR ''.''"
proof -
  have "lower_char c = CHR ''.'' \<longleftrightarrow> (of_char (lower_char c) :: nat) = of_char CHR ''.''"
    by (simp only: of_char_eq_iff)
  also have "\<dots> \<longleftrightarrow> (of_char c :: nat) = of_char CHR ''.''"
    by (simp add: of_char_lower_char)
  also have "\<dots> \<longleftrightarrow> c = CHR ''.''" by (simp only: of_char_eq_iff)
  finally show ?thesis .
qed

lemma lower_append: "lower (a @ b) = lower a @ lower b"
  by (simp add: lower_def)

lemma lower_fixed_suffix: "lower (fixed_suffix pl) = fixed_suffix pl"
  by (cases pl) (simp_all add: fixed_suffix_def lower_def lower_char_def)

lemma lower_mp4_suffixD:
  assumes "suffix ''.mp4'' (lower f)"
  obtains g e where "f = g @ CHR ''.'' # e" "CHR ''.'' \<notin> set e" "lower (CHR ''.'' # e) = ''.mp4''"
proof -
  from assms obtain zs where "map lower_char f = zs @ ''.mp4''"
    by (auto simp: suffix_def lower_def)
  then obtain us vs where f: "f = us @ vs" and vs: "map lower_char vs = ''.mp4''"
    by (auto simp: map_eq_append_conv)
  from vs obtain a b c d where v: "vs = [a, b, c, d]"
    and l: "lower_char a = CHR ''.''" "lower_char b = CHR ''m''" "lower_char c = CHR ''p''"
           "lower_char d = CHR ''4''"
    by auto
  have a: "a = CHR ''.''" using l(1) by (simp only: lower_char_eq_dot)
  have "b \<noteq> CHR ''.''" "c \<noteq> CHR ''.''" "d \<noteq> CHR ''.''"
    using l by (auto simp: lower_char_def)
  then have nd: "CHR ''.'' \<notin> set [b, c, d]" by auto
  show ?thesis
  proof (rule that [of us "[b, c, d]"])
    show "f = us @ CHR ''.'' # [b, c, d]" by (simp add: f v a)
    show "CHR ''.'' \<notin> set [b, c, d]" by (rule nd)
    show "lower (CHR ''.'' # [b, c, d]) = ''.mp4''" using vs by (simp add: v a lower_def)
  qed
qed

lemma last_fixed_suffix: "last (fixed_suffix pl) \<noteq> CHR ''4''"
  by (cases pl) (simp_all add: fixed_suffix_def)

lemma not_mp4_after_suffix: "\<not> suffix ''.mp4'' (x @ fixed_suffix pl)"
proof
  assume "suffix ''.mp4'' (x @ fixed_suffix pl)"
  then obtain zs where "x @ fixed_suffix pl = zs @ ''.mp4''" by (auto simp: suffix_def)
  then have "last (x @ fixed_suffix pl) = last (zs @ ''.mp4'')" by simp
  then show False
    using last_fixed_suffix [of pl] fixed_suffix_chars(3) [of pl] by simp
qed

text \<open>The output name of a selected file is itself never selected in COPY mode.\<close>

lemma output_name_rejected:
  assumes f: "CHR ''/'' \<notin> set f" and mp4: "suffix ''.mp4'' (lower f)"
  shows "\<not> suffix ''.mp4'' (lower (snd (job_paths pl tmp f False))) \<or>
         suffix (fixed_suffix pl @ ''.mp4'') (lower (snd (job_paths pl tmp f False)))"
    and "\<not> suffix (fixed_suffix pl @ ''.mp4'') (lower f) \<Longrightarrow>
         \<not> suffix (fixed_suffix pl @ fixed_suffix pl @ ''.mp4'') (lower (snd (job_paths pl tmp f False)))"
proof -
  from mp4 obtain g e where fe: "f = g @ CHR ''.'' # e" and e: "CHR ''.'' \<notin> set e"
    and le: "lower (CHR ''.'' # e) = ''.mp4''"
    by (rule lower_mp4_suffixD)
  from f fe have ge: "CHR ''/'' \<notin> set g" "CHR ''/'' \<notin> set e" by simp_all
  have sp: "splitext f = (if list_ex (\<lambda>x. x \<noteq> CHR ''.'') g then (g, CHR ''.'' # e) else (f, []))"
    unfolding fe by (rule splitext_dot [OF ge e])
  let ?s = "fixed_suffix pl"
  let ?out = "snd (job_paths pl tmp f False)"
  show "\<not> suffix ''.mp4'' (lower ?out) \<or> suffix (?s @ ''.mp4'') (lower ?out)"
  proof (cases "list_ex (\<lambda>x. x \<noteq> CHR ''.'') g")
    case True
    then have "lower ?out = lower g @ ?s @ ''.mp4''"
      using le by (simp add: job_paths_copy sp lower_append lower_fixed_suffix)
    then show ?thesis by (simp add: suffix_def)
  next
    case False
    then have "lower ?out = lower f @ ?s"
      by (simp add: job_paths_copy sp lower_append lower_fixed_suffix)
    then show ?thesis by (simp add: not_mp4_after_suffix)
  qed
  assume ns: "\<not> suffix (?s @ ''.mp4'') (lower f)"
  show "\<not> suffix (?s @ ?s @ ''.mp4'') (lower ?out)"
  proof (cases "list_ex (\<lambda>x. x \<noteq> CHR ''.'') g")
    case True
    then have o: "lower ?out = lower g @ ?s @ ''.mp4''"
      using le by (simp add: job_paths_copy sp lower_append lower_fixed_suffix)
    have lf: "lower f = lower g @ ''.mp4''"
      using le by (simp add: fe lower_append)
    have "suffix (?s @ (?s @ ''.mp4'')) (lower g @ (?s @ ''.mp4'')) = suffix ?s (lower g)"
      by (rule same_suffix_suffix)
    moreover have "suffix (?s @ ''.mp4'') (lower g @ ''.mp4'') = suffix ?s (lower g)"
      by (rule same_suffix_suffix)
    ultimately show ?thesis using ns by (simp add: o lf)
  next
    case False
    then have o: "lower ?out = lower f @ ?s"
      by (simp add: job_paths_copy sp lower_append lower_fixed_suffix)
    have "suffix ''.mp4'' (?s @ ?s @ ''.mp4'')" by (simp add: suffix_def)
    then have "suffix (?s @ ?s @ ''.mp4'') (lower ?out) \<Longrightarrow> suffix ''.mp4'' (lower ?out)"
      by (rule suffix_order.trans)
    then show ?thesis by (auto simp: o not_mp4_after_suffix)
  qed
qed

lemma output_basename:
  assumes "CHR ''/'' \<notin> set f"
  shows "basename (snd (job_paths pl tmp (path_join d f) False)) = snd (job_paths pl tmp' f False)"
proof -
  obtain h where h: "path_join d f = h @ f" "h = [] \<or> last h = CHR ''/''"
    using assms by (rule path_join_name)
  let ?o = "fst (splitext f) @ fixed_suffix pl @ snd (splitext f)"
  have o: "CHR ''/'' \<notin> set ?o"
    using splitext_name_no_sep [OF assms] splitext_ext_no_sep [of f] fixed_suffix_chars(1) [of pl]
    by simp
  have "snd (job_paths pl tmp (path_join d f) False) = h @ ?o"
    by (simp add: job_paths_copy h(1) splitext_head [OF assms h(2)])
  moreover have "basename (h @ ?o) = ?o" by (rule basename_head [OF o h(2)])
  ultimately show ?thesis by (simp add: job_paths_copy)
qed

lemma scan_elem:
  assumes "p \<in> set (scan pl kw ov tree)" "plain_filenames tree"
  obtains d f where "p = path_join d f" "CHR ''/'' \<notin> set f" "spec_selected pl kw (mode_of ov) f"
  using assms
  by (fastforce simp: scan_eq_spec_scan set_spec_scan plain_filenames_def list_all_iff)

lemma scan_basename_selected:
  assumes "p \<in> set (scan pl kw ov tree)" "plain_filenames tree"
  shows "spec_selected pl kw (mode_of ov) (basename p)"
proof -
  from assms obtain d f where "p = path_join d f" "CHR ''/'' \<notin> set f" "spec_selected pl kw (mode_of ov) f"
    by (rule scan_elem)
  then show ?thesis by (simp add: basename_path_join)
qed

lemma created_not_selected:
  assumes "p \<in> set (scan pl kw False tree)" "plain_filenames tree"
  shows "\<not> spec_selected pl kw' COPY (basename (snd (job_paths pl tmp p False)))"
    and "\<not> suffix (fixed_suffix pl @ fixed_suffix pl @ ''.mp4'')
             (lower (basename (snd (job_paths pl tmp p False))))"
proof -
  from assms obtain d f where p: "p = path_join d f" and f: "CHR ''/'' \<notin> set f"
    and s: "spec_selected pl kw (mode_of False) f"
    by (rule scan_elem)
  from s have mp4: "suffix ''.mp4'' (lower f)"
    and ns: "\<not> suffix (fixed_suffix pl @ ''.mp4'') (lower f)"
    by (simp_all add: spec_selected_def mode_of_def)
  have b: "basename (snd (job_paths pl tmp p False)) = snd (job_paths pl tmp f False)"
    unfolding p by (rule output_basename [OF f])
  show "\<not> spec_selected pl kw' COPY (basename (snd (job_paths pl tmp p False)))"
    using output_name_rejected(1) [OF f mp4, of pl tmp]
    by (auto simp: b spec_selected_def)
  show "\<not> suffix (fixed_suffix pl @ fixed_suffix pl @ ''.mp4'')
             (lower (basename (snd (job_paths pl tmp p False))))"
    using output_name_rejected(2) [OF f mp4 ns, of tmp] by (simp add: b)
qed

lemma spec_scan_after:
  assumes "list_all2
       (\<lambda>(d, ds, fs) (d', ds', fs').
          d' = d \<and> ds' = ds \<and> list_all (\<lambda>f. f \<in> set fs') fs \<and>
          list_all (\<lambda>f'. f' \<in> set fs \<or> path_join d f' \<in> C) fs') t t'"
    and "plain_filenames t'"
    and "\<forall>q\<in>C. \<not> spec_selected pl kw m (basename q)"
  shows "set (spec_scan pl kw m t') = set (spec_scan pl kw m t)"
  using assms(1,2)
proof (induction rule: list_all2_induct)
  case Nil
  then show ?case by simp
next
  case (Cons x xs y ys)
  obtain d ds fs where x: "x = (d, ds, fs)" by (cases x)
  obtain d' ds' fs' where y: "y = (d', ds', fs')" by (cases y)
  from Cons.hyps(1) x y have d: "d' = d" and sub: "set fs \<subseteq> set fs'"
    and new: "\<forall>f'\<in>set fs'. f' \<in> set fs \<or> path_join d f' \<in> C"
    by (auto simp: list_all_iff)
  from Cons.prems y have plain: "\<forall>f'\<in>set fs'. CHR ''/'' \<notin> set f'" and pl': "plain_filenames ys"
    by (auto simp: plain_filenames_def list_all_iff)
  have "{f \<in> set fs'. spec_selected pl kw m f} = {f \<in> set fs. spec_selected pl kw m f}"
  proof (intro equalityI subsetI)
    fix f assume "f \<in> {f \<in> set fs'. spec_selected pl kw m f}"
    then have f: "f \<in> set fs'" "spec_selected pl kw m f" by simp_all
    have "f \<in> set fs"
    proof (rule ccontr)
      assume "f \<notin> set fs"
      with new f(1) have "path_join d f \<in> C" by blast
      with assms(3) have "\<not> spec_selected pl kw m (basename (path_join d f))" by blast
      moreover from plain f(1) have "basename (path_join d f) = f" by (simp add: basename_path_join)
      ultimately show False using f(2) by simp
    qed
    with f(2) show "f \<in> {f \<in> set fs. spec_selected pl kw m f}" by simp
  next
    fix f assume "f \<in> {f \<in> set fs. spec_selected pl kw m f}"
    with sub show "f \<in> {f \<in> set fs'. spec_selected pl kw m f}" by auto
  qed
  then have "set (filter (spec_selected pl kw m) fs') = set (filter (spec_selected pl kw m) fs)"
    by simp
  then have "set (map (path_join d) (filter (spec_selected pl kw m) fs')) =
             set (map (path_join d) (filter (spec_selected pl kw m) fs))"
    by (simp only: set_map)
  moreover have "set (spec_scan pl kw m ys) = set (spec_scan pl kw m xs)"
    using Cons.IH pl' by simp
  ultimately show ?case
    by (simp add: spec_scan_def x y d)
qed

text \<open>
  Claim C7. Let a tree list plain filenames, and let a second tree list, directory by
  directory, the same filenames and possibly some of the output files of a COPY-mode
  run over the first tree. Then the COPY-mode scan of the second tree collects the same
  set of paths as the scan of the first; no output path of the first run is collected
  in the second run (its filename is rejected by the selection rule under any keyword);
  and no output of the second run has a filename ending with the suffix of the
  pipeline twice followed by \<open>.mp4\<close>.
\<close>

theorem second_copy_run_selects_the_same_sources:
  assumes "plain_filenames tree" and "plain_filenames tree'" and "after_copy_run pl kw tree tree'"
  shows "set (scan pl kw False tree') = set (scan pl kw False tree) \<and>
         (\<forall>p \<in> set (scan pl kw False tree).
            snd (job_paths pl tmp p False) \<notin> set (scan pl kw False tree') \<and>
            \<not> spec_selected pl kw' COPY (basename (snd (job_paths pl tmp p False)))) \<and>
         (\<forall>p \<in> set (scan pl kw False tree').
            \<not> suffix (fixed_suffix pl @ fixed_suffix pl @ ''.mp4'')
                (lower (basename (snd (job_paths pl tmp p False)))))"
proof -
  let ?C = "set (map (\<lambda>p. snd (job_paths pl [] p False)) (scan pl kw False tree))"
  have C: "\<forall>q\<in>?C. \<not> spec_selected pl kw COPY (basename q)"
    using created_not_selected(1) [OF _ assms(1), of _ pl kw kw "[]"] by auto
  have rel: "list_all2
       (\<lambda>(d, ds, fs) (d', ds', fs').
          d' = d \<and> ds' = ds \<and> list_all (\<lambda>f. f \<in> set fs') fs \<and>
          list_all (\<lambda>f'. f' \<in> set fs \<or> path_join d f' \<in> ?C) fs') tree tree'"
    using assms(3) unfolding after_copy_run_def .
  have same: "set (scan pl kw False tree') = set (scan pl kw False tree)"
    using spec_scan_after [OF rel assms(2) C] by (simp add: scan_eq_spec_scan mode_of_def)
  have out: "\<forall>p \<in> set (scan pl kw False tree).
            snd (job_paths pl tmp p False) \<notin> set (scan pl kw False tree') \<and>
            \<not> spec_selected pl kw' COPY (basename (snd (job_paths pl tmp p False)))"
  proof
    fix p assume p: "p \<in> set (scan pl kw False tree)"
    have n: "\<not> spec_selected pl k COPY (basename (snd (job_paths pl tmp p False)))" for k
      by (rule created_not_selected(1) [OF p assms(1)])
    have "snd (job_paths pl tmp p False) \<notin> set (scan pl kw False tree)"
    proof
      assume "snd (job_paths pl tmp p False) \<in> set (scan pl kw False tree)"
      then have "spec_selected pl kw (mode_of False) (basename (snd (job_paths pl tmp p False)))"
        using assms(1) by (rule scan_basename_selected)
      with n [of kw] show False by (simp add: mode_of_def)
    qed
    with n [of kw'] show "snd (job_paths pl tmp p False) \<notin> set (scan pl kw False tree') \<and>
            \<not> spec_selected pl kw' COPY (basename (snd (job_paths pl tmp p False)))"
      by (simp add: same)
  qed
  have chain: "\<forall>p \<in> set (scan pl kw False tree').
            \<not> suffix (fixed_suffix pl @ fixed_suffix pl @ ''.mp4'')
                (lower (basename (snd (job_paths pl tmp p False))))"
    unfolding same using created_not_selected(2) [OF _ assms(1)] by blast
  from same out chain show ?thesis by blast
qed

theorem second_copy_run_selects_the_same_sources_witness:
  "plain_filenames example_tree \<and> plain_filenames example_tree_after \<and>
   after_copy_run Crop ''motion'' example_tree example_tree_after \<and>
   scan Crop ''motion'' False example_tree = [''/r/a.mp4'', ''/r/sub/C.MP4'', ''/r/sub/x_new.mp4''] \<and>
   set (scan Crop ''motion'' False example_tree_after) = set (scan Crop ''motion'' False example_tree) \<and>
   snd (job_paths Crop [] ''/r/sub/C.MP4'' False) = ''/r/sub/C_cropped.MP4'' \<and>
   ''/r/sub/C_cropped.MP4'' \<notin> set (scan Crop ''motion'' False example_tree_after)"
proof -
  have a: "plain_filenames example_tree" by code_simp
  have b: "plain_filenames example_tree_after" by code_simp
  have c: "after_copy_run Crop ''motion'' example_tree example_tree_after" by code_simp
  have s: "scan Crop ''motion'' False example_tree = [''/r/a.mp4'', ''/r/sub/C.MP4'', ''/r/sub/x_new.mp4'']"
    by code_simp
  have o: "snd (job_paths Crop [] ''/r/sub/C.MP4'' False) = ''/r/sub/C_cropped.MP4''" by code_simp
  have m: "''/r/sub/C.MP4'' \<in> set (scan Crop ''motion'' False example_tree)" by (simp add: s)
  from second_copy_run_selects_the_same_sources [OF a b c, of "[]"]
  have same: "set (scan Crop ''motion'' False example_tree_after) = set (scan Crop ''motion'' False example_tree)"
    and "\<forall>p \<in> set (scan Crop ''motion'' False example_tree).
            snd (job_paths Crop [] p False) \<notin> set (scan Crop ''motion'' False example_tree_after)"
    by blast+
  with m have "snd (job_paths Crop [] ''/r/sub/C.MP4'' False) \<notin> set (scan Crop ''motion'' False example_tree_after)"
    by blast
  then have "''/r/sub/C_cropped.MP4'' \<notin> set (scan Crop ''motion'' False example_tree_after)"
    unfolding o .
  with a b c s same o show ?thesis by blast
qed

end
